theory Spec2Isabelle
  imports Complex_Main
begin

section \<open>Spatial primitives\<close>

text \<open>
  The engine (\<^verbatim>\<open>src/app/game-engine.ts\<close>) computes with JavaScript numbers. Counters
  (health, ammunition, millisecond timestamps) are modelled as \<^typ>\<open>int\<close>, coordinates,
  angles and durations as \<^typ>\<open>real\<close>. The scene graph, the renderer, the lights and the
  gunshot sound have no effect on the state of the game and are left out.
\<close>

datatype vec3 = Vec3 (vx: real) (vy: real) (vz: real)

datatype euler = Euler (ex: real) (ey: real) (ez: real)

datatype quat = Quat real real real real

datatype rotationOrder = XYZ | YXZ

definition setX :: "vec3 \<Rightarrow> real \<Rightarrow> vec3" where
  "setX v a = Vec3 a (vy v) (vz v)"

definition setY :: "vec3 \<Rightarrow> real \<Rightarrow> vec3" where
  "setY v a = Vec3 (vx v) a (vz v)"

definition setZ :: "vec3 \<Rightarrow> real \<Rightarrow> vec3" where
  "setZ v a = Vec3 (vx v) (vy v) a"

definition subVectors :: "vec3 \<Rightarrow> vec3 \<Rightarrow> vec3" where
  "subVectors a b = Vec3 (vx a - vx b) (vy a - vy b) (vz a - vz b)"

definition addVectors :: "vec3 \<Rightarrow> vec3 \<Rightarrow> vec3" where
  "addVectors a b = Vec3 (vx a + vx b) (vy a + vy b) (vz a + vz b)"

definition multiplyScalar :: "vec3 \<Rightarrow> real \<Rightarrow> vec3" where
  "multiplyScalar v k = Vec3 (vx v * k) (vy v * k) (vz v * k)"

definition vlength :: "vec3 \<Rightarrow> real" where
  "vlength v = sqrt (vx v * vx v + vy v * vy v + vz v * vz v)"

text \<open>\<^verbatim>\<open>normalize()\<close> divides by \<^verbatim>\<open>length() || 1\<close>: the zero vector stays zero.\<close>

definition normalize_vec :: "vec3 \<Rightarrow> vec3" where
  "normalize_vec v = multiplyScalar v (1 / (if vlength v = 0 then 1 else vlength v))"

definition distanceTo :: "vec3 \<Rightarrow> vec3 \<Rightarrow> real" where
  "distanceTo a b = vlength (subVectors a b)"

datatype box3 = Box3 (bmin: vec3) (bmax: vec3)

definition setFromCenterAndSize :: "vec3 \<Rightarrow> vec3 \<Rightarrow> box3" where
  "setFromCenterAndSize c sz =
     (let halfSize = multiplyScalar sz (1/2)
      in Box3 (subVectors c halfSize) (addVectors c halfSize))"

definition intersectsBox :: "box3 \<Rightarrow> box3 \<Rightarrow> bool" where
  "intersectsBox a b \<longleftrightarrow>
     vx (bmax b) \<ge> vx (bmin a) \<and> vx (bmin b) \<le> vx (bmax a) \<and>
     vy (bmax b) \<ge> vy (bmin a) \<and> vy (bmin b) \<le> vy (bmax a) \<and>
     vz (bmax b) \<ge> vz (bmin a) \<and> vz (bmin b) \<le> vz (bmax a)"

section \<open>Scene objects\<close>

text \<open>
  An object of the scene has an identity (\<open>objId\<close>, standing for the JavaScript object
  reference that \<^verbatim>\<open>===\<close> compares), a position and an orientation kept both as Euler
  angles (order XYZ) and as a quaternion. A mesh adds the dimensions of its box geometry.
\<close>

record object3d =
  objId :: nat
  position :: vec3
  rotation :: euler
  quaternion :: quat

record mesh = object3d +
  geometry :: vec3

record intersection =
  distance :: real
  object :: nat

text \<open>
  What the engine takes from its runtime: \<^verbatim>\<open>Math.random()\<close> (the \<open>i\<close>-th draw of the run) and
  the rotation conversions and ray casts of the 3D library.
\<close>

record host =
  mathRandom :: "nat \<Rightarrow> real"
  quatFromEuler :: "rotationOrder \<Rightarrow> euler \<Rightarrow> quat"
  eulerFromQuat :: "rotationOrder \<Rightarrow> quat \<Rightarrow> euler"
  applyQuaternion :: "vec3 \<Rightarrow> quat \<Rightarrow> vec3"
  lookAtQuat :: "vec3 \<Rightarrow> vec3 \<Rightarrow> quat"
  rayFromCamera :: "object3d \<Rightarrow> vec3 \<times> vec3"
  intersectObjects :: "vec3 \<Rightarrow> vec3 \<Rightarrow> mesh list \<Rightarrow> intersection list"

text \<open>Writing one of the two orientation fields of an object updates the other.\<close>

definition setQuaternion :: "host \<Rightarrow> quat \<Rightarrow> ('a object3d_scheme) \<Rightarrow> ('a object3d_scheme)" where
  "setQuaternion H q ob = ob\<lparr>quaternion := q, rotation := eulerFromQuat H XYZ q\<rparr>"

definition setRotation :: "host \<Rightarrow> euler \<Rightarrow> ('a object3d_scheme) \<Rightarrow> ('a object3d_scheme)" where
  "setRotation H r ob = ob\<lparr>rotation := r, quaternion := quatFromEuler H XYZ r\<rparr>"

definition lookAt :: "host \<Rightarrow> vec3 \<Rightarrow> ('a object3d_scheme) \<Rightarrow> ('a object3d_scheme)" where
  "lookAt H t ob = setQuaternion H (lookAtQuat H (position ob) t) ob"

definition translateX :: "host \<Rightarrow> real \<Rightarrow> ('a object3d_scheme) \<Rightarrow> ('a object3d_scheme)" where
  "translateX H d ob =
     ob\<lparr>position := addVectors (position ob)
        (multiplyScalar (applyQuaternion H (Vec3 1 0 0) (quaternion ob)) d)\<rparr>"

definition translateZ :: "host \<Rightarrow> real \<Rightarrow> ('a object3d_scheme) \<Rightarrow> ('a object3d_scheme)" where
  "translateZ H d ob =
     ob\<lparr>position := addVectors (position ob)
        (multiplyScalar (applyQuaternion H (Vec3 0 0 1) (quaternion ob)) d)\<rparr>"

text \<open>The bounding box of a box mesh that is never rotated (the walls and cover boxes).\<close>

definition setFromObject :: "mesh \<Rightarrow> box3" where
  "setFromObject m = setFromCenterAndSize (position m) (geometry m)"

section \<open>Engine state\<close>

record enemy =
  mesh :: mesh
  velocity :: vec3
  health :: int
  lastShot :: int
  target :: vec3
  moveTimer :: real

datatype callback = OnHealthChange int | OnAmmoChange int | OnKill | OnDeath | OnHit

text \<open>
  The fields of \<^verbatim>\<open>GameEngine\<close> (the player's \<^verbatim>\<open>velocity\<close> is \<open>playerVelocity\<close> here), and
  four fields that make effects explicit: \<open>timers\<close>, the pending \<^verbatim>\<open>setTimeout\<close> callbacks
  of \<^verbatim>\<open>reload\<close> as pairs of due time and captured \<^verbatim>\<open>toReload\<close>; \<open>emitted\<close>, the
  callbacks invoked so far, oldest first; \<open>nextId\<close>, the identity of the next object
  created; \<open>rngPos\<close>, the number of \<^verbatim>\<open>Math.random()\<close> draws made.
\<close>

record game =
  playerHealth :: int
  playerAmmo :: int
  playerReserveAmmo :: int
  isReloading :: bool
  moveForward :: bool
  moveBackward :: bool
  moveLeft :: bool
  moveRight :: bool
  canJump :: bool
  playerVelocity :: vec3
  direction :: vec3
  euler :: euler
  isLocked :: bool
  enemies :: "enemy list"
  walls :: "mesh list"
  camera :: object3d
  timers :: "(int \<times> int) list"
  emitted :: "callback list"
  nextId :: nat
  rngPos :: nat

definition emit :: "callback \<Rightarrow> game \<Rightarrow> game" where
  "emit c s = s\<lparr>emitted := emitted s @ [c]\<rparr>"

definition random :: "host \<Rightarrow> game \<Rightarrow> real \<times> game" where
  "random H s = (mathRandom H (rngPos s), s\<lparr>rngPos := Suc (rngPos s)\<rparr>)"

section \<open>World construction\<close>

definition newMesh :: "nat \<Rightarrow> vec3 \<Rightarrow> vec3 \<Rightarrow> mesh" where
  "newMesh i sz p =
     \<lparr>objId = i, position = p, rotation = Euler 0 0 0, quaternion = Quat 0 0 0 1, geometry = sz\<rparr>"

definition addWall :: "vec3 \<Rightarrow> vec3 \<Rightarrow> game \<Rightarrow> game" where
  "addWall sz p s = s\<lparr>walls := walls s @ [newMesh (nextId s) sz p], nextId := Suc (nextId s)\<rparr>"

definition createArena :: "game \<Rightarrow> game" where
  "createArena s =
     (let wallHeight = 20; arenaSize = 100;
          s1 = addWall (Vec3 (arenaSize * 2) wallHeight 2) (Vec3 0 (wallHeight / 2) (- arenaSize)) s;
          s2 = addWall (Vec3 (arenaSize * 2) wallHeight 2) (Vec3 0 (wallHeight / 2) arenaSize) s1;
          s3 = addWall (Vec3 2 wallHeight (arenaSize * 2)) (Vec3 arenaSize (wallHeight / 2) 0) s2
      in addWall (Vec3 2 wallHeight (arenaSize * 2)) (Vec3 (- arenaSize) (wallHeight / 2) 0) s3)"

definition coverPositions :: "(real \<times> real) list" where
  "coverPositions = [(20, 30), (-20, 30), (20, -30), (-20, -30), (40, 0), (-40, 0), (0, 40), (0, -40)]"

definition createCover :: "game \<Rightarrow> game" where
  "createCover s = foldl (\<lambda>t (x, z). addWall (Vec3 8 10 8) (Vec3 x 5 z) t) s coverPositions"

text \<open>
  The rejection loop of \<^verbatim>\<open>spawnEnemies\<close>: draw \<open>x\<close> and \<open>z\<close> until the point is outside the
  square around the player's start. It returns the point and the number of draws made so
  far; it does not return when every pair of draws is rejected.
\<close>

partial_function (option) spawnPosition :: "host \<Rightarrow> nat \<Rightarrow> (real \<times> real \<times> nat) option" where
  "spawnPosition H i =
     (let x = (mathRandom H i - 0.5) * 160;
          z = (mathRandom H (Suc i) - 0.5) * 160
      in if \<bar>x\<bar> < 20 \<and> \<bar>z\<bar> < 20 then spawnPosition H (Suc (Suc i))
         else Some (x, z, Suc (Suc i)))"

definition newEnemy :: "nat \<Rightarrow> real \<Rightarrow> real \<Rightarrow> enemy" where
  "newEnemy i x z =
     \<lparr>mesh = newMesh i (Vec3 4 12 4) (Vec3 x 6 z), velocity = Vec3 0 0 0, health = 100,
      lastShot = 0, target = Vec3 x 6 z, moveTimer = 0\<rparr>"

fun spawnEnemies :: "host \<Rightarrow> nat \<Rightarrow> game \<Rightarrow> game option" where
  "spawnEnemies H 0 s = Some s"
| "spawnEnemies H (Suc n) s =
     (case spawnPosition H (rngPos s) of
        None \<Rightarrow> None
      | Some (x, z, i) \<Rightarrow>
          spawnEnemies H n
            (s\<lparr>enemies := enemies s @ [newEnemy (nextId s) x z],
               nextId := Suc (nextId s), rngPos := i\<rparr>))"

definition emptyGame :: game where
  "emptyGame =
     \<lparr>playerHealth = 100, playerAmmo = 30, playerReserveAmmo = 90, isReloading = False,
      moveForward = False, moveBackward = False, moveLeft = False, moveRight = False,
      canJump = False, playerVelocity = Vec3 0 0 0, direction = Vec3 0 0 0,
      euler = Euler 0 0 0, isLocked = False, enemies = [], walls = [],
      camera = \<lparr>objId = 0, position = Vec3 0 10 0, rotation = Euler 0 0 0,
                quaternion = Quat 0 0 0 1\<rparr>,
      timers = [], emitted = [], nextId = 1, rngPos = 0\<rparr>"

definition newGame :: "host \<Rightarrow> game option" where
  "newGame H = spawnEnemies H 5 (createCover (createArena emptyGame))"

section \<open>Combat\<close>

text \<open>An enemy object is created together with its mesh, so the mesh identifies it.\<close>

definition sameEnemy :: "enemy \<Rightarrow> enemy \<Rightarrow> bool" where
  "sameEnemy a b \<longleftrightarrow> objId (mesh a) = objId (mesh b)"

definition killEnemy :: "host \<Rightarrow> enemy \<Rightarrow> game \<Rightarrow> game option" where
  "killEnemy H e s =
     (let s1 = emit OnKill (s\<lparr>enemies := filter (\<lambda>a. \<not> sameEnemy a e) (enemies s)\<rparr>)
      in if length (enemies s1) < 5 then spawnEnemies H 1 s1 else Some s1)"

text \<open>In-place update of the first enemy of the list that satisfies \<open>P\<close>.\<close>

fun mutateFirst :: "(enemy \<Rightarrow> bool) \<Rightarrow> (enemy \<Rightarrow> enemy) \<Rightarrow> enemy list \<Rightarrow> enemy list" where
  "mutateFirst P f [] = []"
| "mutateFirst P f (a # as) = (if P a then f a # as else a # mutateFirst P f as)"

definition recoil :: "host \<Rightarrow> game \<Rightarrow> game" where
  "recoil H s =
     (let (r1, s1) = random H s;
          c1 = setRotation H (Euler (ex (rotation (camera s1)) + (r1 - 0.5) * 0.02)
                 (ey (rotation (camera s1))) (ez (rotation (camera s1)))) (camera s1);
          (r2, s2) = random H (s1\<lparr>camera := c1\<rparr>);
          c2 = setRotation H (Euler (ex (rotation (camera s2)))
                 (ey (rotation (camera s2)) + (r2 - 0.5) * 0.02) (ez (rotation (camera s2)))) (camera s2)
      in s2\<lparr>camera := c2\<rparr>)"

text \<open>The ray cast of \<^verbatim>\<open>shoot\<close>: the ray from the camera is tested against the meshes of
  the live enemies, and the first intersection decides the enemy that is hit.\<close>

definition hitDetection :: "host \<Rightarrow> game \<Rightarrow> game option" where
  "hitDetection H s =
     (let (origin, dir) = rayFromCamera H (camera s);
          intersects = intersectObjects H origin dir (map mesh (enemies s))
      in case intersects of
           [] \<Rightarrow> Some s
         | h # _ \<Rightarrow>
            (case find (\<lambda>e. objId (mesh e) = object h) (enemies s) of
               None \<Rightarrow> Some s
             | Some hitEnemy \<Rightarrow>
                let hit = hitEnemy\<lparr>health := health hitEnemy - 34\<rparr>;
                    s1 = emit OnHit
                          (s\<lparr>enemies := mutateFirst (\<lambda>e. objId (mesh e) = object h)
                                (\<lambda>e. e\<lparr>health := health e - 34\<rparr>) (enemies s)\<rparr>)
                in if health hit \<le> 0 then killEnemy H hit s1 else Some s1))"

definition shoot :: "host \<Rightarrow> game \<Rightarrow> game option" where
  "shoot H s =
     (if playerAmmo s \<le> 0 \<or> isReloading s then Some s
      else
        case hitDetection H
               (emit (OnAmmoChange (playerAmmo s - 1)) (s\<lparr>playerAmmo := playerAmmo s - 1\<rparr>)) of
          None \<Rightarrow> None
        | Some s2 \<Rightarrow> Some (recoil H s2))"

definition reloadDone :: "int \<Rightarrow> game \<Rightarrow> game" where
  "reloadDone toReload s =
     (let s1 = s\<lparr>playerAmmo := playerAmmo s + toReload,
                 playerReserveAmmo := playerReserveAmmo s - toReload\<rparr>
      in (emit (OnAmmoChange (playerAmmo s1)) s1)\<lparr>isReloading := False\<rparr>)"

definition reload :: "int \<Rightarrow> game \<Rightarrow> game" where
  "reload now s =
     (if isReloading s \<or> playerAmmo s = 30 then s
      else
        let needed = 30 - playerAmmo s;
            toReload = min needed (playerReserveAmmo s)
        in s\<lparr>isReloading := True, timers := timers s @ [(now + 1500, toReload)]\<rparr>)"

text \<open>The event loop runs the oldest pending timer callback once its delay has elapsed.\<close>

definition runTimer :: "int \<Rightarrow> game \<Rightarrow> game" where
  "runTimer now s =
     (case timers s of
        [] \<Rightarrow> s
      | (due, toReload) # rest \<Rightarrow>
          if due \<le> now then reloadDone toReload (s\<lparr>timers := rest\<rparr>) else s)"

section \<open>Enemy agents\<close>

text \<open>The body of the \<^verbatim>\<open>forEach\<close> of \<^verbatim>\<open>updateEnemies\<close>, for one enemy.\<close>

definition retarget :: "host \<Rightarrow> enemy \<Rightarrow> game \<Rightarrow> enemy \<times> game" where
  "retarget H e s =
     (let (r, s1) = random H s
      in if r > 0.3 then
           let dirToPlayer =
                 normalize_vec (setY (subVectors (position (camera s1)) (position (mesh e))) 0)
           in (e\<lparr>target := addVectors (position (mesh e)) (multiplyScalar dirToPlayer 20)\<rparr>, s1)
         else
           let (rx, s2) = random H s1;
               (rz, s3) = random H s2
           in (e\<lparr>target := Vec3 ((rx - 0.5) * 160) 6 ((rz - 0.5) * 160)\<rparr>, s3))"

definition moveEnemy :: "host \<Rightarrow> real \<Rightarrow> enemy \<Rightarrow> enemy" where
  "moveEnemy H delta e =
     (let dir = setY (subVectors (target e) (position (mesh e))) 0
      in if vlength dir > 2 then
           let d = normalize_vec dir;
               vel = Vec3 (vx d * 15) (vy (velocity e)) (vz d * 15);
               p = position (mesh e);
               p' = Vec3 (vx p + vx vel * delta) (vy p) (vz p + vz vel * delta)
           in e\<lparr>velocity := vel, mesh := lookAt H (target e) ((mesh e)\<lparr>position := p'\<rparr>)\<rparr>
         else e)"

definition hitPlayer :: "game \<Rightarrow> game" where
  "hitPlayer s =
     (let s1 = s\<lparr>playerHealth := playerHealth s - 10\<rparr>;
          s2 = emit (OnHealthChange (playerHealth s1)) s1
      in if playerHealth s2 \<le> 0 then emit OnDeath s2 else s2)"

definition enemyShoot :: "host \<Rightarrow> int \<Rightarrow> enemy \<Rightarrow> game \<Rightarrow> enemy \<times> game" where
  "enemyShoot H currentTime e s =
     (let distToPlayer = distanceTo (position (mesh e)) (position (camera s))
      in if distToPlayer < 50 \<and> currentTime - lastShot e > 2000 then
           let e1 = e\<lparr>lastShot := currentTime\<rparr>;
               dir = normalize_vec (subVectors (position (camera s)) (position (mesh e1)));
               intersects = intersectObjects H (position (mesh e1)) dir (walls s);
               visible = (case intersects of [] \<Rightarrow> True | h # _ \<Rightarrow> distance h > distToPlayer)
           in if visible then
                let (r, s1) = random H s
                in if r > 0.3 then (e1, hitPlayer s1) else (e1, s1)
              else (e1, s)
         else (e, s))"

definition updateEnemy :: "host \<Rightarrow> real \<Rightarrow> int \<Rightarrow> enemy \<Rightarrow> game \<Rightarrow> enemy \<times> game" where
  "updateEnemy H delta currentTime e s =
     (let e1 = e\<lparr>moveTimer := moveTimer e + delta\<rparr>;
          (e2, s2) = (if moveTimer e1 > 2 then retarget H (e1\<lparr>moveTimer := 0\<rparr>) s else (e1, s))
      in enemyShoot H currentTime (moveEnemy H delta e2) s2)"

fun forEachEnemy :: "host \<Rightarrow> real \<Rightarrow> int \<Rightarrow> enemy list \<Rightarrow> game \<Rightarrow> enemy list \<times> game" where
  "forEachEnemy H delta currentTime [] s = ([], s)"
| "forEachEnemy H delta currentTime (e # es) s =
     (let (e', s1) = updateEnemy H delta currentTime e s;
          (es', s2) = forEachEnemy H delta currentTime es s1
      in (e' # es', s2))"

definition updateEnemies :: "host \<Rightarrow> real \<Rightarrow> int \<Rightarrow> game \<Rightarrow> game" where
  "updateEnemies H delta currentTime s =
     (let (es, s1) = forEachEnemy H delta currentTime (enemies s) s
      in s1\<lparr>enemies := es\<rparr>)"

section \<open>Player kinematics\<close>

definition number :: "bool \<Rightarrow> real" where
  "number b = (if b then 1 else 0)"

definition integrate :: "host \<Rightarrow> real \<Rightarrow> game \<Rightarrow> game" where
  "integrate H delta s =
     (let v = playerVelocity s;
          v1 = Vec3 (vx v - vx v * 10.0 * delta) (vy v - 9.8 * 10.0 * delta)
                 (vz v - vz v * 10.0 * delta);
          d = normalize_vec (Vec3 (number (moveRight s) - number (moveLeft s)) (vy (direction s))
                 (number (moveForward s) - number (moveBackward s)));
          v2 = (if moveForward s \<or> moveBackward s
                then setZ v1 (vz v1 - vz d * 100.0 * delta) else v1);
          v3 = (if moveLeft s \<or> moveRight s
                then setX v2 (vx v2 - vx d * 100.0 * delta) else v2);
          c1 = translateX H (vx v3 * delta) (camera s);
          c2 = translateZ H (vz v3 * delta) c1;
          c3 = c2\<lparr>position := setY (position c2) (vy (position c2) + vy v3 * delta)\<rparr>
      in s\<lparr>playerVelocity := v3, direction := d, camera := c3\<rparr>)"

text \<open>The loop over the walls: the first wall that the player's box meets ends it.\<close>

fun collide :: "vec3 \<Rightarrow> box3 \<Rightarrow> mesh list \<Rightarrow> game \<Rightarrow> game" where
  "collide prevPosition playerBox [] s = s"
| "collide prevPosition playerBox (wall # rest) s =
     (if intersectsBox playerBox (setFromObject wall)
      then s\<lparr>camera := (camera s)\<lparr>position := prevPosition\<rparr>,
             playerVelocity := setZ (setX (playerVelocity s) 0) 0\<rparr>
      else collide prevPosition playerBox rest s)"

definition groundCollision :: "game \<Rightarrow> game" where
  "groundCollision s =
     (if vy (position (camera s)) < 10
      then s\<lparr>playerVelocity := setY (playerVelocity s) 0,
             camera := (camera s)\<lparr>position := setY (position (camera s)) 10\<rparr>,
             canJump := True\<rparr>
      else s)"

definition arenaBounds :: "game \<Rightarrow> game" where
  "arenaBounds s =
     (let p = position (camera s);
          p1 = setX p (max (-95) (min 95 (vx p)));
          p2 = setZ p1 (max (-95) (min 95 (vz p1)))
      in s\<lparr>camera := (camera s)\<lparr>position := p2\<rparr>\<rparr>)"

definition playerBoxAt :: "vec3 \<Rightarrow> box3" where
  "playerBoxAt p = setFromCenterAndSize p (Vec3 2 10 2)"

definition updatePlayer :: "host \<Rightarrow> real \<Rightarrow> game \<Rightarrow> game" where
  "updatePlayer H delta s =
     (let prevPosition = position (camera s);
          s1 = integrate H delta s;
          playerBox = playerBoxAt (position (camera s1))
      in arenaBounds (groundCollision (collide prevPosition playerBox (walls s1) s1)))"

definition animate :: "host \<Rightarrow> real \<Rightarrow> int \<Rightarrow> game \<Rightarrow> game" where
  "animate H delta currentTime s =
     (if \<not> isLocked s then s
      else updateEnemies H delta currentTime (updatePlayer H delta s))"

section \<open>Input\<close>

definition onKeyDown :: "int \<Rightarrow> string \<Rightarrow> game \<Rightarrow> game" where
  "onKeyDown now code s =
     (if code = ''KeyW'' then s\<lparr>moveForward := True\<rparr>
      else if code = ''KeyS'' then s\<lparr>moveBackward := True\<rparr>
      else if code = ''KeyA'' then s\<lparr>moveLeft := True\<rparr>
      else if code = ''KeyD'' then s\<lparr>moveRight := True\<rparr>
      else if code = ''Space'' then
        (if canJump s then s\<lparr>playerVelocity := setY (playerVelocity s) (vy (playerVelocity s) + 15)\<rparr>
         else s)\<lparr>canJump := False\<rparr>
      else if code = ''KeyR'' then reload now s
      else s)"

definition onKeyUp :: "string \<Rightarrow> game \<Rightarrow> game" where
  "onKeyUp code s =
     (if code = ''KeyW'' then s\<lparr>moveForward := False\<rparr>
      else if code = ''KeyS'' then s\<lparr>moveBackward := False\<rparr>
      else if code = ''KeyA'' then s\<lparr>moveLeft := False\<rparr>
      else if code = ''KeyD'' then s\<lparr>moveRight := False\<rparr>
      else s)"

definition onMouseMove :: "host \<Rightarrow> real \<Rightarrow> real \<Rightarrow> game \<Rightarrow> game" where
  "onMouseMove H movementX movementY s =
     (if \<not> isLocked s then s
      else
        let e0 = eulerFromQuat H YXZ (quaternion (camera s));
            e1 = Euler (ex e0) (ey e0 - movementX * 0.002) (ez e0);
            e2 = Euler (ex e1 - movementY * 0.002) (ey e1) (ez e1);
            e3 = Euler (max (- pi / 2) (min (pi / 2) (ex e2))) (ey e2) (ez e2)
        in s\<lparr>euler := e3, camera := setQuaternion H (quatFromEuler H YXZ e3) (camera s)\<rparr>)"

definition onMouseDown :: "host \<Rightarrow> int \<Rightarrow> game \<Rightarrow> game option" where
  "onMouseDown H button s = (if \<not> isLocked s \<or> button \<noteq> 0 then Some s else shoot H s)"

section \<open>Runs of the engine\<close>

text \<open>
  The browser delivers events one at a time, each at a time \<open>now\<close> (milliseconds): key and
  mouse events, pointer-lock changes, animation frames with the elapsed seconds \<open>delta\<close>,
  and the turn of the event loop that serves the reload timer.
\<close>

datatype event =
    KeyDown string
  | KeyUp string
  | MouseDown int
  | MouseMove real real
  | PointerLockChange bool
  | AnimationFrame real
  | TimerTurn

fun step :: "host \<Rightarrow> int \<times> event \<Rightarrow> game \<Rightarrow> game option" where
  "step H (now, KeyDown code) s = Some (onKeyDown now code s)"
| "step H (now, KeyUp code) s = Some (onKeyUp code s)"
| "step H (now, MouseDown button) s = onMouseDown H button s"
| "step H (now, MouseMove mx my) s = Some (onMouseMove H mx my s)"
| "step H (now, PointerLockChange b) s = Some (s\<lparr>isLocked := b\<rparr>)"
| "step H (now, AnimationFrame delta) s = Some (animate H delta now s)"
| "step H (now, TimerTurn) s = Some (runTimer now s)"

fun run :: "host \<Rightarrow> (int \<times> event) list \<Rightarrow> game \<Rightarrow> game option" where
  "run H [] s = Some s"
| "run H (ev # evs) s = (case step H ev s of None \<Rightarrow> None | Some s1 \<Rightarrow> run H evs s1)"

definition play :: "host \<Rightarrow> (int \<times> event) list \<Rightarrow> game option" where
  "play H evs = (case newGame H of None \<Rightarrow> None | Some s \<Rightarrow> run H evs s)"

section \<open>Views of the state, invariants and test data\<close>

text \<open>The pair of draws at \<open>i\<close> is rejected by the spawn loop.\<close>

definition rejected :: "host \<Rightarrow> nat \<Rightarrow> bool" where
  "rejected H i \<longleftrightarrow>
     \<bar>(mathRandom H i - 0.5) * 160\<bar> < 20 \<and> \<bar>(mathRandom H (Suc i) - 0.5) * 160\<bar> < 20"

text \<open>The ammunition invariant: the counters stay in range, and a reload in progress has
  exactly one pending timer, which carries the amount the current counters determine.\<close>

definition ammoInv :: "game \<Rightarrow> bool" where
  "ammoInv s \<longleftrightarrow>
     0 \<le> playerAmmo s \<and> playerAmmo s \<le> 30 \<and> 0 \<le> playerReserveAmmo s \<and>
     playerAmmo s + playerReserveAmmo s \<le> 120 \<and>
     (if isReloading s
      then length (timers s) = 1 \<and>
           snd (hd (timers s)) = min (30 - playerAmmo s) (playerReserveAmmo s)
      else timers s = [])"

text \<open>
  A host for evaluating runs: every second random draw is 0.5, the others 0.65 (so that
  enemies spawn at \<open>x = 0\<close>, \<open>z = 24\<close>); the camera is never turned; a ray meets the mesh
  with identity 13 when it is among the objects tested, and nothing else.
\<close>

definition testHost :: host where
  "testHost =
     \<lparr>mathRandom = (\<lambda>i. if even i then 1/2 else 13/20),
      quatFromEuler = (\<lambda>_ _. Quat 0 0 0 1),
      eulerFromQuat = (\<lambda>_ _. Euler 0 0 0),
      applyQuaternion = (\<lambda>v _. v),
      lookAtQuat = (\<lambda>_ _. Quat 0 0 0 1),
      rayFromCamera = (\<lambda>c. (position c, Vec3 0 0 (-1))),
      intersectObjects = (\<lambda>_ _ ms.
         map (\<lambda>m. \<lparr>distance = 1, object = objId m\<rparr>) (filter (\<lambda>m. objId m = 13) ms))\<rparr>"

definition testWalls :: "mesh list" where
  "testWalls = walls (createCover (createArena emptyGame))"

definition testGame :: game where
  "testGame =
     emptyGame\<lparr>walls := testWalls,
       enemies := map (\<lambda>i. newEnemy i 0 24) [13, 14, 15, 16, 17], nextId := 18, rngPos := 10\<rparr>"

text \<open>The positions the player can have: at or above eye height, inside the arena bounds.\<close>

definition inArena :: "vec3 \<Rightarrow> bool" where
  "inArena p \<longleftrightarrow> 10 \<le> vy p \<and> - 95 \<le> vx p \<and> vx p \<le> 95 \<and> - 95 \<le> vz p \<and> vz p \<le> 95"

text \<open>The live enemies as pairs of identity and health, in the order of the list.\<close>

definition roster :: "game \<Rightarrow> (nat \<times> int) list" where
  "roster s = map (\<lambda>e. (objId (mesh e), health e)) (enemies s)"

definition enemyIds :: "game \<Rightarrow> nat list" where
  "enemyIds s = map fst (roster s)"

text \<open>The health of the live enemy with identity \<open>k\<close>, if there is one.\<close>

definition healthOf :: "nat \<Rightarrow> game \<Rightarrow> int option" where
  "healthOf k s = map_of (roster s) k"

text \<open>Object identities are unique and below the next identity to be given out.\<close>

definition wellFormed :: "game \<Rightarrow> bool" where
  "wellFormed s \<longleftrightarrow> distinct (enemyIds s) \<and> list_all (\<lambda>k. k < nextId s) (enemyIds s)"

text \<open>The health values a live enemy can have: 100 less 34 for each hit it survived.\<close>

definition healthy :: "int \<Rightarrow> bool" where
  "healthy hp \<longleftrightarrow> hp = 100 \<or> hp = 66 \<or> hp = 32"

text \<open>
  The population invariant: five live enemies with distinct identities and healthy values,
  and one enemy spawned for each of the first five and for each kill signalled since (the
  camera and the twelve walls take the identities below 13).
\<close>

definition enemiesInv :: "game \<Rightarrow> bool" where
  "enemiesInv s \<longleftrightarrow>
     wellFormed s \<and> length (roster s) = 5 \<and> list_all (\<lambda>p. healthy (snd p)) (roster s) \<and>
     nextId s = 13 + 5 + count_list (emitted s) OnKill"

text \<open>The object that the ray of a shot meets first among the meshes of the live enemies.\<close>

definition firstHit :: "host \<Rightarrow> game \<Rightarrow> nat option" where
  "firstHit H s =
     (let (origin, dir) = rayFromCamera H (camera s)
      in case intersectObjects H origin dir (map mesh (enemies s)) of
           [] \<Rightarrow> None
         | h # _ \<Rightarrow> Some (object h))"

text \<open>The number of enemies created so far.\<close>

definition spawned :: "game \<Rightarrow> nat" where
  "spawned s = nextId s - 13"

text \<open>The state after the pointer is locked and the first enemy has been hit twice.\<close>

definition twiceHit :: game where
  "twiceHit =
     testGame\<lparr>playerAmmo := 28, isLocked := True,
       enemies := (newEnemy 13 0 24)\<lparr>health := 32\<rparr> # map (\<lambda>i. newEnemy i 0 24) [14, 15, 16, 17],
       camera := (camera testGame)\<lparr>rotation := Euler 0 (3/500) 0\<rparr>,
       emitted := [OnAmmoChange 29, OnHit, OnAmmoChange 28, OnHit], rngPos := 14\<rparr>"

text \<open>The points of a box (\<^verbatim>\<open>Box3.containsPoint\<close>).\<close>

definition containsPoint :: "box3 \<Rightarrow> vec3 \<Rightarrow> bool" where
  "containsPoint b p \<longleftrightarrow>
     vx (bmin b) \<le> vx p \<and> vx p \<le> vx (bmax b) \<and>
     vy (bmin b) \<le> vy p \<and> vy p \<le> vy (bmax b) \<and>
     vz (bmin b) \<le> vz p \<and> vz p \<le> vz (bmax b)"

text \<open>The parameters \<open>t\<close> at which the ray \<open>origin + t * dir\<close> crosses the planes of the six
  faces of a box.\<close>

definition facePlanes :: "vec3 \<Rightarrow> vec3 \<Rightarrow> box3 \<Rightarrow> real list" where
  "facePlanes origin dir b =
     (if vx dir = 0 then []
      else [(vx (bmin b) - vx origin) / vx dir, (vx (bmax b) - vx origin) / vx dir]) @
     (if vy dir = 0 then []
      else [(vy (bmin b) - vy origin) / vy dir, (vy (bmax b) - vy origin) / vy dir]) @
     (if vz dir = 0 then []
      else [(vz (bmin b) - vz origin) / vz dir, (vz (bmax b) - vz origin) / vz dir])"

text \<open>
  A ray against a box, for a ray that starts outside it: the least \<open>t \<ge> 0\<close> at which the
  point of the ray lies in the box, which is on the plane of a face.
\<close>

definition rayBox :: "vec3 \<Rightarrow> vec3 \<Rightarrow> box3 \<Rightarrow> real option" where
  "rayBox origin dir b =
     (if containsPoint b origin then None
      else case filter (\<lambda>t. 0 \<le> t \<and> containsPoint b (addVectors origin (multiplyScalar dir t)))
                  (facePlanes origin dir b) of
             [] \<Rightarrow> None
           | t # ts \<Rightarrow> Some (fold min ts t))"

text \<open>A geometric ray cast: the boxes of the meshes that the ray meets, the nearest first
  (the direction has length 1, so that \<open>t\<close> is the distance).\<close>

definition rayCast :: "vec3 \<Rightarrow> vec3 \<Rightarrow> mesh list \<Rightarrow> intersection list" where
  "rayCast origin dir ms =
     sort_key distance
       (concat (map (\<lambda>m. case rayBox origin dir (setFromObject m) of
                            None \<Rightarrow> []
                          | Some t \<Rightarrow> [\<lparr>distance = t, object = objId m\<rparr>]) ms))"

text \<open>
  A host with this ray cast. The first enemy spawns at \<open>x = 0\<close>, \<open>z = -24\<close>, straight
  ahead of the player's start; the other four, and the first replacement, at \<open>x = 40\<close>,
  \<open>z = -24\<close>. Every recoil draw is 0.5, so the camera is never turned and its ray leaves
  its position along the negative \<open>z\<close> axis.
\<close>

definition aimHost :: host where
  "aimHost =
     \<lparr>mathRandom = (\<lambda>i. if i = 0 then 1/2
                         else if i < 10 \<or> i = 14 \<or> i = 15 then (if even i then 3/4 else 7/20)
                         else 1/2),
      quatFromEuler = (\<lambda>_ _. Quat 0 0 0 1),
      eulerFromQuat = (\<lambda>_ _. Euler 0 0 0),
      applyQuaternion = (\<lambda>v _. v),
      lookAtQuat = (\<lambda>_ _. Quat 0 0 0 1),
      rayFromCamera = (\<lambda>c. (position c, Vec3 0 0 (-1))),
      intersectObjects = rayCast\<rparr>"

definition aimGame :: game where
  "aimGame =
     emptyGame\<lparr>walls := testWalls,
       enemies := newEnemy 13 0 (- 24) # map (\<lambda>i. newEnemy i 40 (- 24)) [14, 15, 16, 17],
       nextId := 18, rngPos := 10\<rparr>"




text \<open>A lone block on the line from the player's start to the enemy 13 of the test game.\<close>

definition blockingWall :: "mesh list" where
  "blockingWall = [newMesh 99 (Vec3 8 20 8) (Vec3 0 10 (- 12))]"

text \<open>The state of the test game after two shots at the enemy 13.\<close>

definition twiceAimed :: game where
  "twiceAimed =
     aimGame\<lparr>playerAmmo := 28, isLocked := True,
       enemies := (newEnemy 13 0 (- 24))\<lparr>health := 32\<rparr> #
                  map (\<lambda>i. newEnemy i 40 (- 24)) [14, 15, 16, 17],
       emitted := [OnAmmoChange 29, OnHit, OnAmmoChange 28, OnHit], rngPos := 14\<rparr>"

text \<open>The number of times the health callback has been invoked: the hits the player took.\<close>

definition hits :: "callback list \<Rightarrow> nat" where
  "hits cs = length (filter (\<lambda>c. case c of OnHealthChange _ \<Rightarrow> True | _ \<Rightarrow> False) cs)"

text \<open>
  The health invariant: every hit takes 10 from the initial 100, with no floor, and the
  death callback has been invoked whenever the health is not positive.
\<close>

definition healthInv :: "game \<Rightarrow> bool" where
  "healthInv s \<longleftrightarrow>
     playerHealth s = 100 - 10 * int (hits (emitted s)) \<and>
     (playerHealth s \<le> 0 \<longrightarrow> OnDeath \<in> set (emitted s))"

text \<open>Three volleys of the five enemies, each more than 2000 ms after the one before.\<close>

definition volleys :: "(int \<times> event) list" where
  "volleys =
     [(0, PointerLockChange True), (2001, AnimationFrame 0), (4002, AnimationFrame 0),
      (6003, AnimationFrame 0)]"

text \<open>
  The test host with other accuracy rolls: from the eleventh draw on, every fifth draw
  is 0.1 (a miss) and the others are 0.9 (hits).
\<close>

definition volleyHost :: host where
  "volleyHost =
     testHost\<lparr>mathRandom :=
       (\<lambda>i. if i < 10 then (if even i then 1/2 else 13/20)
            else if i mod 5 = 4 then 1/10 else 9/10)\<rparr>"

text \<open>The player looks straight up, at the upper limit of the pitch.\<close>

definition lookingUp :: game where
  "lookingUp =
     testGame\<lparr>isLocked := True,
       camera := setRotation testHost (Euler (pi / 2) 0 0) (camera testGame), rngPos := 11\<rparr>"

text \<open>The player walks backwards for one long frame, then turns to walk forwards.\<close>

definition approach :: "(int \<times> event) list" where
  "approach =
     [(0, PointerLockChange True), (1, KeyDown ''KeyS''), (2, AnimationFrame (39/100)),
      (3, KeyUp ''KeyS''), (4, KeyDown ''KeyW'')]"

section \<open>What an enemy update leaves alone\<close>

lemma emit_fields [simp]:
  "playerHealth (emit c s) = playerHealth s" "playerAmmo (emit c s) = playerAmmo s"
  "playerReserveAmmo (emit c s) = playerReserveAmmo s" "isReloading (emit c s) = isReloading s"
  "timers (emit c s) = timers s" "enemies (emit c s) = enemies s" "walls (emit c s) = walls s"
  "camera (emit c s) = camera s" "nextId (emit c s) = nextId s" "rngPos (emit c s) = rngPos s"
  "isLocked (emit c s) = isLocked s" "emitted (emit c s) = emitted s @ [c]"
  by (simp_all add: emit_def)

lemma retarget_game:
  "retarget H e s = (e', s') \<Longrightarrow>
     playerHealth s' = playerHealth s \<and> playerAmmo s' = playerAmmo s \<and>
     playerReserveAmmo s' = playerReserveAmmo s \<and> isReloading s' = isReloading s \<and>
     timers s' = timers s \<and> enemies s' = enemies s \<and> walls s' = walls s \<and>
     camera s' = camera s \<and> nextId s' = nextId s \<and> isLocked s' = isLocked s \<and>
     emitted s' = emitted s"
  by (auto simp: retarget_def random_def Let_def split: if_splits prod.splits)

lemma retarget_enemy:
  "retarget H e s = (e', s') \<Longrightarrow> mesh e' = mesh e \<and> health e' = health e \<and> lastShot e' = lastShot e"
  by (auto simp: retarget_def random_def Let_def split: if_splits prod.splits)

lemma moveEnemy_enemy:
  "objId (mesh (moveEnemy H d e)) = objId (mesh e) \<and> health (moveEnemy H d e) = health e \<and>
   lastShot (moveEnemy H d e) = lastShot e"
  by (simp add: moveEnemy_def lookAt_def setQuaternion_def Let_def)

lemma hitPlayer_fields [simp]:
  "playerAmmo (hitPlayer s) = playerAmmo s"
  "playerReserveAmmo (hitPlayer s) = playerReserveAmmo s" "isReloading (hitPlayer s) = isReloading s"
  "timers (hitPlayer s) = timers s" "enemies (hitPlayer s) = enemies s" "walls (hitPlayer s) = walls s"
  "camera (hitPlayer s) = camera s" "nextId (hitPlayer s) = nextId s" "rngPos (hitPlayer s) = rngPos s"
  "isLocked (hitPlayer s) = isLocked s" "playerHealth (hitPlayer s) = playerHealth s - 10"
  by (simp_all add: hitPlayer_def Let_def)

lemma enemyShoot_game:
  "enemyShoot H t e s = (e', s') \<Longrightarrow>
     playerAmmo s' = playerAmmo s \<and>
     playerReserveAmmo s' = playerReserveAmmo s \<and> isReloading s' = isReloading s \<and>
     timers s' = timers s \<and> enemies s' = enemies s \<and> walls s' = walls s \<and>
     camera s' = camera s \<and> nextId s' = nextId s \<and> isLocked s' = isLocked s"
  by (auto simp: enemyShoot_def random_def Let_def split: if_splits prod.splits)

lemma enemyShoot_enemy:
  "enemyShoot H t e s = (e', s') \<Longrightarrow> mesh e' = mesh e \<and> health e' = health e"
  by (auto simp: enemyShoot_def random_def Let_def split: if_splits prod.splits)

lemma updateEnemy_game:
  "updateEnemy H d t e s = (e', s') \<Longrightarrow>
     playerAmmo s' = playerAmmo s \<and>
     playerReserveAmmo s' = playerReserveAmmo s \<and> isReloading s' = isReloading s \<and>
     timers s' = timers s \<and> enemies s' = enemies s \<and> walls s' = walls s \<and>
     camera s' = camera s \<and> nextId s' = nextId s \<and> isLocked s' = isLocked s"
  unfolding updateEnemy_def Let_def
  by (auto split: if_splits prod.splits dest!: retarget_game enemyShoot_game)

lemma updateEnemy_enemy:
  "updateEnemy H d t e s = (e', s') \<Longrightarrow> objId (mesh e') = objId (mesh e) \<and> health e' = health e"
  unfolding updateEnemy_def Let_def
  by (auto split: if_splits prod.splits dest!: retarget_enemy enemyShoot_enemy simp: moveEnemy_enemy)

lemma forEachEnemy_game:
  "forEachEnemy H d t es s = (es', s') \<Longrightarrow>
     playerAmmo s' = playerAmmo s \<and>
     playerReserveAmmo s' = playerReserveAmmo s \<and> isReloading s' = isReloading s \<and>
     timers s' = timers s \<and> enemies s' = enemies s \<and> walls s' = walls s \<and>
     camera s' = camera s \<and> nextId s' = nextId s \<and> isLocked s' = isLocked s"
proof (induction es arbitrary: s es' s')
  case Nil
  then show ?case by simp
next
  case (Cons e es)
  obtain e1 s1 where u: "updateEnemy H d t e s = (e1, s1)" by (cases "updateEnemy H d t e s")
  obtain es2 s2 where f: "forEachEnemy H d t es s1 = (es2, s2)" by (cases "forEachEnemy H d t es s1")
  from Cons.prems u f have "s' = s2" by simp
  with Cons.IH[OF f] updateEnemy_game[OF u] show ?case by simp
qed

lemma forEachEnemy_enemies:
  "forEachEnemy H d t es s = (es', s') \<Longrightarrow>
     map (\<lambda>e. (objId (mesh e), health e)) es' = map (\<lambda>e. (objId (mesh e), health e)) es"
proof (induction es arbitrary: s es' s')
  case Nil
  then show ?case by simp
next
  case (Cons e es)
  obtain e1 s1 where u: "updateEnemy H d t e s = (e1, s1)" by (cases "updateEnemy H d t e s")
  obtain es2 s2 where f: "forEachEnemy H d t es s1 = (es2, s2)" by (cases "forEachEnemy H d t es s1")
  from Cons.prems u f have "es' = e1 # es2" by simp
  with Cons.IH[OF f] updateEnemy_enemy[OF u] show ?case by simp
qed

section \<open>Spawning, killing and shooting\<close>

lemma spawnPosition_accept:
  "\<not> rejected H i \<Longrightarrow>
   spawnPosition H i =
     Some ((mathRandom H i - 0.5) * 160, (mathRandom H (Suc i) - 0.5) * 160, Suc (Suc i))"
  by (subst spawnPosition.simps) (auto simp: rejected_def Let_def)

lemma spawnPosition_reject:
  "rejected H i \<Longrightarrow> spawnPosition H i = spawnPosition H (Suc (Suc i))"
  by (subst spawnPosition.simps) (auto simp: rejected_def Let_def)

lemma spawnPosition_returns:
  "\<not> rejected H (i + 2 * k) \<Longrightarrow> \<exists>x z j. spawnPosition H i = Some (x, z, j)"
proof (induction k arbitrary: i)
  case 0
  then show ?case by (simp add: spawnPosition_accept)
next
  case (Suc k)
  show ?case
  proof (cases "rejected H i")
    case True
    from Suc.prems have "\<not> rejected H (Suc (Suc i) + 2 * k)" by simp
    from Suc.IH[OF this] show ?thesis by (simp add: spawnPosition_reject[OF True])
  next
    case False
    then show ?thesis by (simp add: spawnPosition_accept)
  qed
qed

lemma spawnEnemies_game:
  "spawnEnemies H n s = Some s' \<Longrightarrow>
     playerHealth s' = playerHealth s \<and> playerAmmo s' = playerAmmo s \<and>
     playerReserveAmmo s' = playerReserveAmmo s \<and> isReloading s' = isReloading s \<and>
     timers s' = timers s \<and> walls s' = walls s \<and> camera s' = camera s \<and>
     isLocked s' = isLocked s \<and> emitted s' = emitted s \<and> nextId s' = nextId s + n"
proof (induction n arbitrary: s)
  case 0
  then show ?case by simp
next
  case (Suc n)
  then show ?case by (auto split: option.splits prod.splits dest!: Suc.IH)
qed

lemma spawnEnemies_enemies:
  "spawnEnemies H n s = Some s' \<Longrightarrow>
     \<exists>new. enemies s' = enemies s @ new \<and>
       map (\<lambda>e. objId (mesh e)) new = [nextId s ..< nextId s + n] \<and>
       (\<forall>e \<in> set new. health e = 100)"
proof (induction n arbitrary: s)
  case 0
  then show ?case by simp
next
  case (Suc n)
  from Suc.prems obtain x z i where
    sp: "spawnPosition H (rngPos s) = Some (x, z, i)" and
    rest: "spawnEnemies H n (s\<lparr>enemies := enemies s @ [newEnemy (nextId s) x z],
               nextId := Suc (nextId s), rngPos := i\<rparr>) = Some s'"
    by (auto split: option.splits prod.splits)
  from Suc.IH[OF rest] obtain new where
    n: "enemies s' = (enemies s @ [newEnemy (nextId s) x z]) @ new"
       "map (\<lambda>e. objId (mesh e)) new = [Suc (nextId s) ..< Suc (nextId s) + n]"
       "\<forall>e \<in> set new. health e = 100"
    by auto
  have "map (\<lambda>e. objId (mesh e)) (newEnemy (nextId s) x z # new) = [nextId s ..< nextId s + Suc n]"
    using n(2) by (simp add: newEnemy_def newMesh_def upt_rec[of "nextId s"])
  moreover have "\<forall>e \<in> set (newEnemy (nextId s) x z # new). health e = 100"
    using n(3) by (simp add: newEnemy_def)
  ultimately show ?case using n(1) by (intro exI[of _ "newEnemy (nextId s) x z # new"]) simp
qed

lemma spawnEnemies_returns:
  "\<not> rejected H (rngPos s + 2 * k) \<Longrightarrow> \<exists>s'. spawnEnemies H 1 s = Some s'"
  using spawnPosition_returns[of H "rngPos s" k] by (auto simp: numeral_eq_Suc)

lemma recoil_fields [simp]:
  "playerHealth (recoil H s) = playerHealth s" "playerAmmo (recoil H s) = playerAmmo s"
  "playerReserveAmmo (recoil H s) = playerReserveAmmo s" "isReloading (recoil H s) = isReloading s"
  "timers (recoil H s) = timers s" "enemies (recoil H s) = enemies s" "walls (recoil H s) = walls s"
  "nextId (recoil H s) = nextId s" "isLocked (recoil H s) = isLocked s"
  "emitted (recoil H s) = emitted s" "position (camera (recoil H s)) = position (camera s)"
  "euler (recoil H s) = euler s"
  by (simp_all add: recoil_def random_def setRotation_def Let_def)

lemma recoil_rotation:
  "rotation (camera (recoil H s)) =
     Euler (ex (rotation (camera s)) + (mathRandom H (rngPos s) - 0.5) * 0.02)
           (ey (rotation (camera s)) + (mathRandom H (Suc (rngPos s)) - 0.5) * 0.02)
           (ez (rotation (camera s)))"
  by (simp add: recoil_def random_def setRotation_def Let_def)

lemma killEnemy_game:
  "killEnemy H e s = Some s' \<Longrightarrow>
     playerHealth s' = playerHealth s \<and> playerAmmo s' = playerAmmo s \<and>
     playerReserveAmmo s' = playerReserveAmmo s \<and> isReloading s' = isReloading s \<and>
     timers s' = timers s \<and> walls s' = walls s \<and> camera s' = camera s \<and>
     isLocked s' = isLocked s \<and> emitted s' = emitted s @ [OnKill]"
  by (auto simp: killEnemy_def Let_def simp del: spawnEnemies.simps split: if_splits
      dest!: spawnEnemies_game)

lemma hitDetection_game:
  "hitDetection H s = Some s' \<Longrightarrow>
     playerHealth s' = playerHealth s \<and> playerAmmo s' = playerAmmo s \<and>
     playerReserveAmmo s' = playerReserveAmmo s \<and> isReloading s' = isReloading s \<and>
     timers s' = timers s \<and> walls s' = walls s \<and> camera s' = camera s \<and>
     isLocked s' = isLocked s"
  by (auto simp: hitDetection_def Let_def split: if_splits prod.splits list.splits option.splits
      dest!: killEnemy_game)

lemma shoot_game:
  "shoot H s = Some s' \<Longrightarrow> \<not> (playerAmmo s \<le> 0 \<or> isReloading s) \<Longrightarrow>
     playerHealth s' = playerHealth s \<and> playerAmmo s' = playerAmmo s - 1 \<and>
     playerReserveAmmo s' = playerReserveAmmo s \<and> isReloading s' = isReloading s \<and>
     timers s' = timers s \<and> walls s' = walls s \<and>
     position (camera s') = position (camera s) \<and> isLocked s' = isLocked s"
  by (auto simp: shoot_def split: if_splits option.splits dest!: hitDetection_game)

section \<open>The ammunition invariant\<close>

lemma collide_fields:
  "playerHealth (collide p b ws s) = playerHealth s \<and> playerAmmo (collide p b ws s) = playerAmmo s \<and>
   playerReserveAmmo (collide p b ws s) = playerReserveAmmo s \<and>
   isReloading (collide p b ws s) = isReloading s \<and> timers (collide p b ws s) = timers s \<and>
   enemies (collide p b ws s) = enemies s \<and> walls (collide p b ws s) = walls s \<and>
   nextId (collide p b ws s) = nextId s \<and> rngPos (collide p b ws s) = rngPos s \<and>
   emitted (collide p b ws s) = emitted s \<and> isLocked (collide p b ws s) = isLocked s"
  by (induction ws) simp_all

lemma collide_hit:
  "\<exists>w \<in> set ws. intersectsBox b (setFromObject w) \<Longrightarrow>
   collide p b ws s =
     s\<lparr>camera := (camera s)\<lparr>position := p\<rparr>, playerVelocity := setZ (setX (playerVelocity s) 0) 0\<rparr>"
  by (induction ws) auto

lemma collide_miss:
  "\<not> (\<exists>w \<in> set ws. intersectsBox b (setFromObject w)) \<Longrightarrow> collide p b ws s = s"
  by (induction ws) auto

lemma integrate_fields:
  "playerHealth (integrate H d s) = playerHealth s \<and> playerAmmo (integrate H d s) = playerAmmo s \<and>
   playerReserveAmmo (integrate H d s) = playerReserveAmmo s \<and>
   isReloading (integrate H d s) = isReloading s \<and> timers (integrate H d s) = timers s \<and>
   enemies (integrate H d s) = enemies s \<and> walls (integrate H d s) = walls s \<and>
   nextId (integrate H d s) = nextId s \<and> rngPos (integrate H d s) = rngPos s \<and>
   emitted (integrate H d s) = emitted s \<and> isLocked (integrate H d s) = isLocked s"
proof -
  have "\<exists>v dir c. integrate H d s = s\<lparr>playerVelocity := v, direction := dir, camera := c\<rparr>"
    unfolding integrate_def Let_def by (intro exI) (rule refl)
  then obtain v dir c where "integrate H d s = s\<lparr>playerVelocity := v, direction := dir, camera := c\<rparr>"
    by blast
  then show ?thesis by simp
qed

lemma groundCollision_fields:
  "playerHealth (groundCollision s) = playerHealth s \<and> playerAmmo (groundCollision s) = playerAmmo s \<and>
   playerReserveAmmo (groundCollision s) = playerReserveAmmo s \<and>
   isReloading (groundCollision s) = isReloading s \<and> timers (groundCollision s) = timers s \<and>
   enemies (groundCollision s) = enemies s \<and> walls (groundCollision s) = walls s \<and>
   nextId (groundCollision s) = nextId s \<and> rngPos (groundCollision s) = rngPos s \<and>
   emitted (groundCollision s) = emitted s \<and> isLocked (groundCollision s) = isLocked s"
  by (simp add: groundCollision_def)

lemma arenaBounds_fields:
  "playerHealth (arenaBounds s) = playerHealth s \<and> playerAmmo (arenaBounds s) = playerAmmo s \<and>
   playerReserveAmmo (arenaBounds s) = playerReserveAmmo s \<and>
   isReloading (arenaBounds s) = isReloading s \<and> timers (arenaBounds s) = timers s \<and>
   enemies (arenaBounds s) = enemies s \<and> walls (arenaBounds s) = walls s \<and>
   nextId (arenaBounds s) = nextId s \<and> rngPos (arenaBounds s) = rngPos s \<and>
   emitted (arenaBounds s) = emitted s \<and> isLocked (arenaBounds s) = isLocked s"
proof -
  have "\<exists>c. arenaBounds s = s\<lparr>camera := c\<rparr>"
    unfolding arenaBounds_def Let_def by (intro exI) (rule refl)
  then obtain c where "arenaBounds s = s\<lparr>camera := c\<rparr>" by blast
  then show ?thesis by simp
qed

lemma onMouseMove_shape:
  "onMouseMove H mx my s = s \<or>
   (\<exists>e q. onMouseMove H mx my s = s\<lparr>euler := e, camera := setQuaternion H q (camera s)\<rparr>)"
proof (cases "isLocked s")
  case True
  then have nn: "\<not> \<not> isLocked s" by simp
  have "\<exists>e q. onMouseMove H mx my s = s\<lparr>euler := e, camera := setQuaternion H q (camera s)\<rparr>"
    unfolding onMouseMove_def Let_def by (simp only: if_not_P[OF nn]) (intro exI, rule refl)
  then show ?thesis ..
next
  case False
  then show ?thesis by (simp add: onMouseMove_def)
qed

lemma onMouseMove_fields:
  "playerHealth (onMouseMove H mx my s) = playerHealth s \<and>
   playerAmmo (onMouseMove H mx my s) = playerAmmo s \<and>
   playerReserveAmmo (onMouseMove H mx my s) = playerReserveAmmo s \<and>
   isReloading (onMouseMove H mx my s) = isReloading s \<and> timers (onMouseMove H mx my s) = timers s \<and>
   enemies (onMouseMove H mx my s) = enemies s \<and> walls (onMouseMove H mx my s) = walls s \<and>
   nextId (onMouseMove H mx my s) = nextId s \<and> emitted (onMouseMove H mx my s) = emitted s \<and>
   isLocked (onMouseMove H mx my s) = isLocked s \<and>
   position (camera (onMouseMove H mx my s)) = position (camera s)"
  using onMouseMove_shape[of H mx my s] by (auto simp: setQuaternion_def)

lemma updatePlayer_fields:
  "playerHealth (updatePlayer H d s) = playerHealth s \<and> playerAmmo (updatePlayer H d s) = playerAmmo s \<and>
   playerReserveAmmo (updatePlayer H d s) = playerReserveAmmo s \<and>
   isReloading (updatePlayer H d s) = isReloading s \<and> timers (updatePlayer H d s) = timers s \<and>
   enemies (updatePlayer H d s) = enemies s \<and> walls (updatePlayer H d s) = walls s \<and>
   nextId (updatePlayer H d s) = nextId s \<and> rngPos (updatePlayer H d s) = rngPos s \<and>
   emitted (updatePlayer H d s) = emitted s \<and> isLocked (updatePlayer H d s) = isLocked s"
  unfolding updatePlayer_def Let_def
  by (simp only: arenaBounds_fields groundCollision_fields collide_fields integrate_fields simp_thms)

lemma updateEnemies_fields:
  "playerAmmo (updateEnemies H d t s) = playerAmmo s \<and>
   playerReserveAmmo (updateEnemies H d t s) = playerReserveAmmo s \<and>
   isReloading (updateEnemies H d t s) = isReloading s \<and> timers (updateEnemies H d t s) = timers s \<and>
   walls (updateEnemies H d t s) = walls s \<and> camera (updateEnemies H d t s) = camera s \<and>
   nextId (updateEnemies H d t s) = nextId s \<and> isLocked (updateEnemies H d t s) = isLocked s"
  by (auto simp: updateEnemies_def split: prod.splits dest!: forEachEnemy_game)

lemma animate_fields:
  "playerAmmo (animate H d t s) = playerAmmo s \<and>
   playerReserveAmmo (animate H d t s) = playerReserveAmmo s \<and>
   isReloading (animate H d t s) = isReloading s \<and> timers (animate H d t s) = timers s \<and>
   walls (animate H d t s) = walls s \<and> nextId (animate H d t s) = nextId s \<and>
   isLocked (animate H d t s) = isLocked s"
  by (simp add: animate_def updateEnemies_fields updatePlayer_fields)

lemma ammoInv_cong:
  "playerAmmo s' = playerAmmo s \<Longrightarrow> playerReserveAmmo s' = playerReserveAmmo s \<Longrightarrow>
   isReloading s' = isReloading s \<Longrightarrow> timers s' = timers s \<Longrightarrow> ammoInv s' = ammoInv s"
  by (simp add: ammoInv_def)

lemma reload_ammoInv: "ammoInv s \<Longrightarrow> ammoInv (reload now s)"
  by (auto simp: ammoInv_def reload_def Let_def)

lemma runTimer_ammoInv: "ammoInv s \<Longrightarrow> ammoInv (runTimer now s)"
  by (cases "timers s") (auto simp: ammoInv_def runTimer_def reloadDone_def Let_def split: if_splits)

lemma shoot_ammoInv: "ammoInv s \<Longrightarrow> shoot H s = Some s' \<Longrightarrow> ammoInv s'"
proof (cases "playerAmmo s \<le> 0 \<or> isReloading s")
  case True
  assume "ammoInv s" "shoot H s = Some s'"
  with True show ?thesis by (simp add: shoot_def)
next
  case False
  assume a: "ammoInv s" "shoot H s = Some s'"
  from shoot_game[OF a(2) False] a(1) False show ?thesis by (auto simp: ammoInv_def)
qed

lemma onKeyUp_fields:
  "playerHealth (onKeyUp code s) = playerHealth s \<and> playerAmmo (onKeyUp code s) = playerAmmo s \<and>
   playerReserveAmmo (onKeyUp code s) = playerReserveAmmo s \<and>
   isReloading (onKeyUp code s) = isReloading s \<and> timers (onKeyUp code s) = timers s \<and>
   enemies (onKeyUp code s) = enemies s \<and> walls (onKeyUp code s) = walls s \<and>
   nextId (onKeyUp code s) = nextId s \<and> camera (onKeyUp code s) = camera s \<and>
   emitted (onKeyUp code s) = emitted s \<and> isLocked (onKeyUp code s) = isLocked s"
  by (simp add: onKeyUp_def)

lemma reload_fields:
  "playerHealth (reload now s) = playerHealth s \<and> playerAmmo (reload now s) = playerAmmo s \<and>
   playerReserveAmmo (reload now s) = playerReserveAmmo s \<and>
   enemies (reload now s) = enemies s \<and> walls (reload now s) = walls s \<and>
   nextId (reload now s) = nextId s \<and> camera (reload now s) = camera s \<and>
   emitted (reload now s) = emitted s \<and> isLocked (reload now s) = isLocked s"
  by (simp add: reload_def Let_def)

lemma onKeyDown_reload: "onKeyDown now ''KeyR'' s = reload now s"
  by (simp add: onKeyDown_def)

lemma onKeyDown_fields:
  "playerHealth (onKeyDown now code s) = playerHealth s \<and>
   playerAmmo (onKeyDown now code s) = playerAmmo s \<and>
   playerReserveAmmo (onKeyDown now code s) = playerReserveAmmo s \<and>
   enemies (onKeyDown now code s) = enemies s \<and> walls (onKeyDown now code s) = walls s \<and>
   nextId (onKeyDown now code s) = nextId s \<and> camera (onKeyDown now code s) = camera s \<and>
   emitted (onKeyDown now code s) = emitted s \<and> isLocked (onKeyDown now code s) = isLocked s"
  by (simp add: onKeyDown_def reload_fields)

lemma onKeyDown_timers:
  "code \<noteq> ''KeyR'' \<Longrightarrow>
   isReloading (onKeyDown now code s) = isReloading s \<and> timers (onKeyDown now code s) = timers s"
  by (simp add: onKeyDown_def)

lemma onKeyDown_ammoInv: "ammoInv s \<Longrightarrow> ammoInv (onKeyDown now code s)"
proof (cases "code = ''KeyR''")
  case True
  assume "ammoInv s"
  with True show ?thesis by (simp add: onKeyDown_reload reload_ammoInv)
next
  case False
  assume "ammoInv s"
  with onKeyDown_timers[OF False, of now s] onKeyDown_fields[of now code s] show ?thesis
    by (simp add: ammoInv_def)
qed

lemma step_ammoInv: "ammoInv s \<Longrightarrow> step H ev s = Some s' \<Longrightarrow> ammoInv s'"
proof -
  assume a: "ammoInv s" and st: "step H ev s = Some s'"
  obtain now e where ev: "ev = (now, e)" by (cases ev)
  show ?thesis
  proof (cases e)
    case (KeyDown code)
    with a st ev show ?thesis by (auto simp: onKeyDown_ammoInv)
  next
    case (KeyUp code)
    with a st ev show ?thesis using onKeyUp_fields[of code s] by (auto simp: ammoInv_def)
  next
    case (MouseDown b)
    with st ev have "s' = s \<or> shoot H s = Some s'"
      by (auto simp: onMouseDown_def split: if_splits)
    with a shoot_ammoInv[OF a] show ?thesis by blast
  next
    case (MouseMove mx my)
    with a st ev show ?thesis using onMouseMove_fields[of H mx my s] by (auto simp: ammoInv_def)
  next
    case (PointerLockChange b)
    with a st ev show ?thesis by (auto simp: ammoInv_def)
  next
    case (AnimationFrame d)
    with a st ev show ?thesis using animate_fields[of H d now s] by (auto simp: ammoInv_def)
  next
    case TimerTurn
    with a st ev show ?thesis by (auto simp: runTimer_ammoInv)
  qed
qed

lemma run_ammoInv: "ammoInv s \<Longrightarrow> run H evs s = Some s' \<Longrightarrow> ammoInv s'"
proof (induction evs arbitrary: s)
  case Nil
  then show ?case by simp
next
  case (Cons ev evs)
  from Cons.prems(2) obtain s1 where 1: "step H ev s = Some s1" and 2: "run H evs s1 = Some s'"
    by (auto split: option.splits)
  from Cons.IH[OF step_ammoInv[OF Cons.prems(1) 1] 2] show ?case .
qed

lemma createWorld_fields:
  "playerAmmo (createCover (createArena emptyGame)) = 30 \<and>
   playerReserveAmmo (createCover (createArena emptyGame)) = 90 \<and>
   \<not> isReloading (createCover (createArena emptyGame)) \<and>
   timers (createCover (createArena emptyGame)) = [] \<and>
   playerHealth (createCover (createArena emptyGame)) = 100 \<and>
   emitted (createCover (createArena emptyGame)) = [] \<and>
   enemies (createCover (createArena emptyGame)) = [] \<and>
   nextId (createCover (createArena emptyGame)) = 13 \<and>
   camera (createCover (createArena emptyGame)) = camera emptyGame"
  by (simp add: createCover_def createArena_def coverPositions_def addWall_def emptyGame_def Let_def)

lemma newGame_ammoInv: "newGame H = Some s \<Longrightarrow> ammoInv s"
  unfolding newGame_def
  by (drule spawnEnemies_game) (simp add: ammoInv_def createWorld_fields)

lemma play_ammoInv: "play H evs = Some s \<Longrightarrow> ammoInv s"
  by (auto simp: play_def split: option.splits dest: newGame_ammoInv run_ammoInv)

section \<open>Firing and reloading: claims C4, C1 and C10\<close>

lemma testHost_sel:
  "mathRandom testHost i = (if even i then 1/2 else 13/20)"
  "quatFromEuler testHost ord e = Quat 0 0 0 1"
  "eulerFromQuat testHost ord q = Euler 0 0 0"
  "applyQuaternion testHost v q = v"
  "lookAtQuat testHost p t = Quat 0 0 0 1"
  "rayFromCamera testHost c = (position c, Vec3 0 0 (-1))"
  "intersectObjects testHost origin dir ms =
     map (\<lambda>m. \<lparr>distance = 1, object = objId m\<rparr>) (filter (\<lambda>m. objId m = 13) ms)"
  by (simp_all add: testHost_def)

lemma spawnPosition_testHost:
  "even i \<Longrightarrow> spawnPosition testHost i = Some (0, 24, Suc (Suc i))"
  by (subst spawnPosition.simps) (simp add: testHost_def)

lemma testWalls_eq:
  "testWalls =
     [newMesh 1 (Vec3 200 20 2) (Vec3 0 10 (-100)), newMesh 2 (Vec3 200 20 2) (Vec3 0 10 100),
      newMesh 3 (Vec3 2 20 200) (Vec3 100 10 0), newMesh 4 (Vec3 2 20 200) (Vec3 (-100) 10 0),
      newMesh 5 (Vec3 8 10 8) (Vec3 20 5 30), newMesh 6 (Vec3 8 10 8) (Vec3 (-20) 5 30),
      newMesh 7 (Vec3 8 10 8) (Vec3 20 5 (-30)), newMesh 8 (Vec3 8 10 8) (Vec3 (-20) 5 (-30)),
      newMesh 9 (Vec3 8 10 8) (Vec3 40 5 0), newMesh 10 (Vec3 8 10 8) (Vec3 (-40) 5 0),
      newMesh 11 (Vec3 8 10 8) (Vec3 0 5 40), newMesh 12 (Vec3 8 10 8) (Vec3 0 5 (-40))]"
  by (simp add: testWalls_def createCover_def createArena_def coverPositions_def addWall_def
      emptyGame_def Let_def)
    (simp add: eval_nat_numeral)

lemma newGame_testHost: "newGame testHost = Some testGame"
proof -
  have five: "(5::nat) = Suc (Suc (Suc (Suc (Suc 0))))" by simp
  show ?thesis
    unfolding newGame_def five
    by (simp add: createCover_def createArena_def coverPositions_def addWall_def
        emptyGame_def Let_def spawnPosition_testHost testGame_def testWalls_def)
      (simp add: eval_nat_numeral)
qed

text \<open>
  Claim C4. Firing with an empty magazine or while a reload is in progress, and reloading
  while a reload is in progress or with a full magazine of 30, return the state they were
  given: no field changes and no callback is invoked. The same holds for the mouse and key
  events that trigger them.
\<close>

theorem misuse_is_noop:
  "(playerAmmo s \<le> 0 \<or> isReloading s \<longrightarrow>
      shoot H s = Some s \<and> step H (now, MouseDown button) s = Some s) \<and>
   (isReloading s \<or> playerAmmo s = 30 \<longrightarrow>
      reload now s = s \<and> step H (now, KeyDown ''KeyR'') s = Some s)"
  by (simp add: shoot_def reload_def onMouseDown_def onKeyDown_def)

theorem misuse_is_noop_witness:
  "playerAmmo (testGame\<lparr>playerAmmo := 0\<rparr>) \<le> 0 \<and>
   shoot testHost (testGame\<lparr>playerAmmo := 0\<rparr>) = Some (testGame\<lparr>playerAmmo := 0\<rparr>) \<and>
   step testHost (7, MouseDown 0) (testGame\<lparr>playerAmmo := 0\<rparr>) = Some (testGame\<lparr>playerAmmo := 0\<rparr>) \<and>
   isReloading (reload 0 (testGame\<lparr>playerAmmo := 0\<rparr>)) \<and>
   shoot testHost (reload 0 (testGame\<lparr>playerAmmo := 0\<rparr>)) = Some (reload 0 (testGame\<lparr>playerAmmo := 0\<rparr>)) \<and>
   reload 9 (reload 0 (testGame\<lparr>playerAmmo := 0\<rparr>)) = reload 0 (testGame\<lparr>playerAmmo := 0\<rparr>) \<and>
   playerAmmo testGame = 30 \<and> reload 0 testGame = testGame \<and>
   step testHost (7, KeyDown ''KeyR'') testGame = Some testGame"
proof -
  have a: "playerAmmo (testGame\<lparr>playerAmmo := 0\<rparr>) \<le> 0" by simp
  have b: "isReloading (reload 0 (testGame\<lparr>playerAmmo := 0\<rparr>))"
    by (simp add: reload_def Let_def testGame_def emptyGame_def)
  have c: "playerAmmo testGame = 30" by (simp add: testGame_def emptyGame_def)
  from a b c
    misuse_is_noop[of "testGame\<lparr>playerAmmo := 0\<rparr>" testHost 7 0]
    misuse_is_noop[of "reload 0 (testGame\<lparr>playerAmmo := 0\<rparr>)" testHost 9 0]
    misuse_is_noop[of testGame testHost 0 0]
    misuse_is_noop[of testGame testHost 7 0]
  show ?thesis by simp
qed

text \<open>
  Claim C1. In every state that a run of events reaches from the start of a match, the
  magazine and the reserve are not negative and their sum is at most 120. Serving the
  reload timer never changes the sum, and when it completes a reload it moves exactly
  \<open>min (30 - magazine) reserve\<close> rounds from the reserve to the magazine.
\<close>

theorem ammo_conservation:
  assumes "play H evs = Some s"
  shows "0 \<le> playerAmmo s \<and> 0 \<le> playerReserveAmmo s \<and>
         playerAmmo s + playerReserveAmmo s \<le> 120 \<and>
         (\<forall>now. playerAmmo (runTimer now s) + playerReserveAmmo (runTimer now s) =
                  playerAmmo s + playerReserveAmmo s \<and>
                (isReloading s \<and> \<not> isReloading (runTimer now s) \<longrightarrow>
                   playerAmmo (runTimer now s) =
                     playerAmmo s + min (30 - playerAmmo s) (playerReserveAmmo s) \<and>
                   playerReserveAmmo (runTimer now s) =
                     playerReserveAmmo s - min (30 - playerAmmo s) (playerReserveAmmo s)))"
proof -
  from assms have inv: "ammoInv s" by (rule play_ammoInv)
  have "playerAmmo (runTimer now s) + playerReserveAmmo (runTimer now s) =
          playerAmmo s + playerReserveAmmo s" for now
    by (cases "timers s") (auto simp: runTimer_def reloadDone_def Let_def)
  moreover have "playerAmmo (runTimer now s) =
                     playerAmmo s + min (30 - playerAmmo s) (playerReserveAmmo s) \<and>
                   playerReserveAmmo (runTimer now s) =
                     playerReserveAmmo s - min (30 - playerAmmo s) (playerReserveAmmo s)"
    if "isReloading s" "\<not> isReloading (runTimer now s)" for now
    using inv that
    by (cases "timers s") (auto simp: ammoInv_def runTimer_def reloadDone_def Let_def split: if_splits)
  ultimately show ?thesis using inv by (simp add: ammoInv_def)
qed

lemma play_testHost_reload:
  "\<exists>s. play testHost
          [(0, PointerLockChange True), (1, MouseDown 0), (2, KeyDown ''KeyR'')] = Some s \<and>
        playerAmmo s = 29 \<and> playerReserveAmmo s = 90 \<and> isReloading s \<and>
        timers s = [(1502, 1)]"
  by (simp add: play_def newGame_testHost onMouseDown_def shoot_def hitDetection_def
      testGame_def emptyGame_def testHost_sel newEnemy_def newMesh_def emit_def Let_def
      recoil_def random_def setRotation_def onKeyDown_def reload_def)

theorem ammo_conservation_witness:
  "\<exists>s. play testHost
          [(0, PointerLockChange True), (1, MouseDown 0), (2, KeyDown ''KeyR'')] = Some s \<and>
        playerAmmo s = 29 \<and> playerReserveAmmo s = 90 \<and> isReloading s \<and>
        \<not> isReloading (runTimer 1502 s) \<and>
        0 \<le> playerAmmo s \<and> 0 \<le> playerReserveAmmo s \<and>
        playerAmmo s + playerReserveAmmo s \<le> 120 \<and>
        playerAmmo (runTimer 1502 s) = 30 \<and> playerReserveAmmo (runTimer 1502 s) = 89"
proof -
  from play_testHost_reload obtain s where
    s: "play testHost
          [(0, PointerLockChange True), (1, MouseDown 0), (2, KeyDown ''KeyR'')] = Some s"
       "playerAmmo s = 29" "playerReserveAmmo s = 90" "isReloading s" "timers s = [(1502, 1)]"
    by blast
  have d: "\<not> isReloading (runTimer 1502 s)"
    using s(5) by (simp add: runTimer_def reloadDone_def Let_def)
  from ammo_conservation[OF s(1)] s d show ?thesis by auto
qed

text \<open>
  Claim C10. A reload requested with fewer than 30 rounds in the magazine and an empty
  reserve is not a no-op: it sets the reloading flag and schedules the timer 1500 ms ahead
  with 0 rounds to move. Until the timer is served, firing and reloading return the state
  unchanged, and the timer is not served before its delay has elapsed. When it is served,
  magazine and reserve are what they were, the flag is cleared and the ammunition callback
  is invoked with the unchanged magazine.
\<close>

theorem reload_with_empty_reserve:
  assumes "\<not> isReloading s" and "timers s = []"
    and "playerAmmo s < 30" and "playerReserveAmmo s = 0"
  shows "reload now s \<noteq> s \<and> isReloading (reload now s) \<and>
         timers (reload now s) = [(now + 1500, 0)] \<and>
         (\<forall>H. shoot H (reload now s) = Some (reload now s)) \<and>
         (\<forall>t. reload t (reload now s) = reload now s) \<and>
         (\<forall>t. t < now + 1500 \<longrightarrow> runTimer t (reload now s) = reload now s) \<and>
         (\<forall>t. now + 1500 \<le> t \<longrightarrow>
            playerAmmo (runTimer t (reload now s)) = playerAmmo s \<and>
            playerReserveAmmo (runTimer t (reload now s)) = playerReserveAmmo s \<and>
            \<not> isReloading (runTimer t (reload now s)) \<and>
            timers (runTimer t (reload now s)) = [] \<and>
            emitted (runTimer t (reload now s)) = emitted s @ [OnAmmoChange (playerAmmo s)])"
proof -
  have r: "reload now s = s\<lparr>isReloading := True, timers := [(now + 1500, 0)]\<rparr>"
    using assms by (simp add: reload_def Let_def)
  have "reload now s \<noteq> s"
  proof
    assume "reload now s = s"
    then have "isReloading (reload now s) = isReloading s" by simp
    with r assms(1) show False by simp
  qed
  moreover have "shoot H (reload now s) = Some (reload now s)" for H
    by (simp add: r shoot_def)
  moreover have "reload t (reload now s) = reload now s" for t
    by (simp add: r reload_def)
  moreover have "runTimer t (reload now s) = reload now s" if "t < now + 1500" for t
    using that by (simp add: r runTimer_def)
  moreover have "playerAmmo (runTimer t (reload now s)) = playerAmmo s \<and>
            playerReserveAmmo (runTimer t (reload now s)) = playerReserveAmmo s \<and>
            \<not> isReloading (runTimer t (reload now s)) \<and>
            timers (runTimer t (reload now s)) = [] \<and>
            emitted (runTimer t (reload now s)) = emitted s @ [OnAmmoChange (playerAmmo s)]"
    if "now + 1500 \<le> t" for t
    using that by (simp add: r runTimer_def reloadDone_def Let_def)
  ultimately show ?thesis by (simp add: r)
qed

theorem reload_with_empty_reserve_witness:
  "\<not> isReloading (testGame\<lparr>playerAmmo := 10, playerReserveAmmo := 0\<rparr>) \<and>
   timers (testGame\<lparr>playerAmmo := 10, playerReserveAmmo := 0\<rparr>) = [] \<and>
   playerAmmo (testGame\<lparr>playerAmmo := 10, playerReserveAmmo := 0\<rparr>) < 30 \<and>
   playerReserveAmmo (testGame\<lparr>playerAmmo := 10, playerReserveAmmo := 0\<rparr>) = 0 \<and>
   isReloading (reload 100 (testGame\<lparr>playerAmmo := 10, playerReserveAmmo := 0\<rparr>)) \<and>
   timers (reload 100 (testGame\<lparr>playerAmmo := 10, playerReserveAmmo := 0\<rparr>)) = [(1600, 0)] \<and>
   runTimer 1599 (reload 100 (testGame\<lparr>playerAmmo := 10, playerReserveAmmo := 0\<rparr>)) =
     reload 100 (testGame\<lparr>playerAmmo := 10, playerReserveAmmo := 0\<rparr>) \<and>
   playerAmmo (runTimer 1600 (reload 100 (testGame\<lparr>playerAmmo := 10, playerReserveAmmo := 0\<rparr>))) = 10 \<and>
   playerReserveAmmo (runTimer 1600 (reload 100 (testGame\<lparr>playerAmmo := 10, playerReserveAmmo := 0\<rparr>))) = 0 \<and>
   \<not> isReloading (runTimer 1600 (reload 100 (testGame\<lparr>playerAmmo := 10, playerReserveAmmo := 0\<rparr>)))"
proof -
  have h: "\<not> isReloading (testGame\<lparr>playerAmmo := 10, playerReserveAmmo := 0\<rparr>)"
    "timers (testGame\<lparr>playerAmmo := 10, playerReserveAmmo := 0\<rparr>) = []"
    "playerAmmo (testGame\<lparr>playerAmmo := 10, playerReserveAmmo := 0\<rparr>) < 30"
    "playerReserveAmmo (testGame\<lparr>playerAmmo := 10, playerReserveAmmo := 0\<rparr>) = 0"
    by (simp_all add: testGame_def emptyGame_def)
  from reload_with_empty_reserve[OF h, of 100] h show ?thesis by simp
qed

section \<open>Arena containment\<close>

lemma groundCollision_inArena:
  "inArena p \<Longrightarrow> position (camera s) = p \<Longrightarrow> groundCollision s = s"
  by (simp add: groundCollision_def inArena_def)

lemma arenaBounds_inArena:
  "inArena (position (camera s)) \<Longrightarrow> arenaBounds s = s"
proof -
  assume a: "inArena (position (camera s))"
  have x: "max (-95) (min 95 (vx (position (camera s)))) = vx (position (camera s))"
    using a by (simp add: inArena_def)
  have z: "max (-95) (min 95 (vz (position (camera s)))) = vz (position (camera s))"
    using a by (simp add: inArena_def)
  show ?thesis
    unfolding arenaBounds_def Let_def setX_def setZ_def vec3.sel x z by simp
qed

lemma groundCollision_height: "10 \<le> vy (position (camera (groundCollision s)))"
  by (simp add: groundCollision_def setY_def)

lemma arenaBounds_establishes:
  "10 \<le> vy (position (camera s)) \<Longrightarrow> inArena (position (camera (arenaBounds s)))"
  by (simp add: arenaBounds_def Let_def inArena_def setX_def setZ_def)

lemma updatePlayer_inArena: "inArena (position (camera (updatePlayer H d s)))"
  unfolding updatePlayer_def Let_def
  by (rule arenaBounds_establishes) (rule groundCollision_height)

section \<open>Outcomes of the ray cast of a shot\<close>

lemma enemyIds_eq: "enemyIds s = map (\<lambda>e. objId (mesh e)) (enemies s)"
  by (simp add: enemyIds_def roster_def comp_def)

lemma map_of_find:
  "map_of (map (\<lambda>e. (objId (mesh e), health e)) es) k =
     map_option health (find (\<lambda>e. objId (mesh e) = k) es)"
  by (induction es) auto

lemma healthOf_find:
  "healthOf k s = map_option health (find (\<lambda>e. objId (mesh e) = k) (enemies s))"
  by (simp add: healthOf_def roster_def map_of_find)

lemma find_Some_mem:
  "find P xs = Some x \<Longrightarrow> x \<in> set xs \<and> P x"
  by (induction xs) (auto split: if_splits)

lemma find_None_ids:
  "find (\<lambda>e. objId (mesh e) = k) es = None \<longleftrightarrow> k \<notin> set (map (\<lambda>e. objId (mesh e)) es)"
  by (induction es) auto

lemma mutateFirst_ids:
  "(\<And>e. objId (mesh (f e)) = objId (mesh e)) \<Longrightarrow>
   map (\<lambda>e. objId (mesh e)) (mutateFirst P f es) = map (\<lambda>e. objId (mesh e)) es"
  by (induction es) auto

lemma mutateFirst_length: "length (mutateFirst P f es) = length es"
  by (induction es) auto

lemma mutateFirst_find:
  "(\<And>e. objId (mesh (f e)) = objId (mesh e)) \<Longrightarrow>
   find (\<lambda>e. objId (mesh e) = j) (mutateFirst (\<lambda>e. objId (mesh e) = k) f es) =
     (if j = k then map_option f (find (\<lambda>e. objId (mesh e) = k) es)
      else find (\<lambda>e. objId (mesh e) = j) es)"
  by (induction es) auto

lemma filter_ids:
  "map (\<lambda>e. objId (mesh e)) (filter (\<lambda>a. \<not> sameEnemy a e) es) =
     removeAll (objId (mesh e)) (map (\<lambda>e. objId (mesh e)) es)"
  by (induction es) (auto simp: sameEnemy_def)

lemma filter_find:
  "find (\<lambda>e. objId (mesh e) = j) (filter (\<lambda>a. \<not> sameEnemy a e) es) =
     (if j = objId (mesh e) then None else find (\<lambda>e. objId (mesh e) = j) es)"
  by (induction es) (auto simp: sameEnemy_def)

lemma find_append:
  "find P (xs @ ys) = (case find P xs of None \<Rightarrow> find P ys | Some x \<Rightarrow> Some x)"
  by (induction xs) auto

lemma distinct_removeAll_length:
  "distinct xs \<Longrightarrow> k \<in> set xs \<Longrightarrow> length (removeAll k xs) = length xs - 1"
  by (simp add: distinct_remove1_removeAll[symmetric] length_remove1)

text \<open>The three outcomes of the ray cast of a shot, for a state with five distinct enemies.\<close>

lemma hitDetection_miss:
  assumes "hitDetection H s = Some s'"
    and "rayFromCamera H (camera s) = (origin, dir)"
    and "intersectObjects H origin dir (map mesh (enemies s)) = [] \<or>
         (\<exists>h hs. intersectObjects H origin dir (map mesh (enemies s)) = h # hs \<and>
            healthOf (object h) s = None)"
  shows "s' = s"
  using assms by (auto simp: hitDetection_def healthOf_find Let_def split: list.splits option.splits)

lemma hitDetection_hit:
  assumes "hitDetection H s = Some s'"
    and "rayFromCamera H (camera s) = (origin, dir)"
    and "intersectObjects H origin dir (map mesh (enemies s)) = h # hs"
    and "healthOf (object h) s = Some hp" and "34 < hp"
  shows "s' = emit OnHit (s\<lparr>enemies := mutateFirst (\<lambda>e. objId (mesh e) = object h)
                (\<lambda>e. e\<lparr>health := health e - 34\<rparr>) (enemies s)\<rparr>)"
  using assms
  by (auto simp: hitDetection_def healthOf_find Let_def split: list.splits option.splits)

lemma hitDetection_kill:
  assumes "hitDetection H s = Some s'"
    and "rayFromCamera H (camera s) = (origin, dir)"
    and "intersectObjects H origin dir (map mesh (enemies s)) = h # hs"
    and "healthOf (object h) s = Some hp" and "hp \<le> 34"
    and "wellFormed s" and "length (enemies s) = 5"
  shows "\<exists>x z i. s' = (emit OnKill (emit OnHit s))
           \<lparr>enemies := filter (\<lambda>e. objId (mesh e) \<noteq> object h)
                         (mutateFirst (\<lambda>e. objId (mesh e) = object h)
                (\<lambda>e. e\<lparr>health := health e - 34\<rparr>) (enemies s)) @
                       [newEnemy (nextId s) x z],
            nextId := Suc (nextId s), rngPos := i\<rparr>"
proof -
  let ?P = "\<lambda>e. objId (mesh e) = object h"
  from assms(4) obtain e where e: "find ?P (enemies s) = Some e" "health e = hp"
    by (auto simp: healthOf_find)
  then have em: "e \<in> set (enemies s)" "objId (mesh e) = object h"
    using find_Some_mem[of ?P "enemies s" e] by auto
  let ?es = "mutateFirst ?P (\<lambda>e. e\<lparr>health := health e - 34\<rparr>) (enemies s)"
  let ?s1 = "emit OnHit (s\<lparr>enemies := ?es\<rparr>)"
  let ?hit = "e\<lparr>health := health e - 34\<rparr>"
  have k: "killEnemy H ?hit ?s1 = Some s'"
    using assms(1,2,3,5) e
    by (simp add: hitDetection_def Let_def)
  have same: "(\<lambda>a. \<not> sameEnemy a ?hit) = (\<lambda>a. objId (mesh a) \<noteq> object h)"
    by (simp add: sameEnemy_def em(2))
  have ids: "map (\<lambda>e. objId (mesh e)) ?es = enemyIds s"
    by (simp add: mutateFirst_ids enemyIds_eq)
  have "map (\<lambda>e. objId (mesh e)) (filter (\<lambda>a. \<not> sameEnemy a ?hit) ?es) =
          removeAll (object h) (enemyIds s)"
    using filter_ids[of ?hit ?es] by (simp add: ids em(2))
  moreover have "object h \<in> set (enemyIds s)"
    unfolding enemyIds_eq set_map using em by (intro image_eqI[of _ _ e]) simp_all
  ultimately have "length (map (\<lambda>e. objId (mesh e)) (filter (\<lambda>a. \<not> sameEnemy a ?hit) ?es)) = 4"
    using assms(6,7) distinct_removeAll_length[of "enemyIds s" "object h"]
    by (simp add: wellFormed_def enemyIds_eq)
  then have len: "length (filter (\<lambda>a. \<not> sameEnemy a ?hit) ?es) < 5" by simp
  let ?s2 = "emit OnKill (?s1\<lparr>enemies := filter (\<lambda>a. \<not> sameEnemy a ?hit) ?es\<rparr>)"
  from k len have sp: "spawnEnemies H (Suc 0) ?s2 = Some s'"
    by (simp add: killEnemy_def Let_def del: spawnEnemies.simps)
  then obtain x z i where "spawnPosition H (rngPos ?s2) = Some (x, z, i)"
    and "s' = ?s2\<lparr>enemies := enemies ?s2 @ [newEnemy (nextId ?s2) x z],
               nextId := Suc (nextId ?s2), rngPos := i\<rparr>"
    by (auto split: option.splits prod.splits)
  then have "s' = (emit OnKill (emit OnHit s))
           \<lparr>enemies := filter (\<lambda>e. objId (mesh e) \<noteq> object h) ?es @ [newEnemy (nextId s) x z],
            nextId := Suc (nextId s), rngPos := i\<rparr>"
    by (simp add: same emit_def)
  then show ?thesis by blast
qed

section \<open>Effects of a shot on the roster\<close>

lemma roster_cong: "enemies s' = enemies s \<Longrightarrow> roster s' = roster s"
  by (simp add: roster_def)

lemma enemyIds_cong: "enemies s' = enemies s \<Longrightarrow> enemyIds s' = enemyIds s"
  by (simp add: enemyIds_def roster_def)

lemma healthOf_cong: "enemies s' = enemies s \<Longrightarrow> healthOf k s' = healthOf k s"
  by (simp add: healthOf_def roster_def)

lemma wellFormed_cong:
  "enemies s' = enemies s \<Longrightarrow> nextId s' = nextId s \<Longrightarrow> wellFormed s' = wellFormed s"
  by (simp add: wellFormed_def enemyIds_def roster_def)

lemma length_enemyIds: "length (enemyIds s) = length (enemies s)"
  by (simp add: enemyIds_def roster_def)

lemma healthOf_Some_mem: "healthOf k s = Some hp \<Longrightarrow> k \<in> set (enemyIds s)"
  unfolding healthOf_def enemyIds_def by (metis map_of_SomeD image_eqI fst_conv set_map)

lemma healthOf_None_iff: "healthOf k s = None \<longleftrightarrow> k \<notin> set (enemyIds s)"
  by (simp add: healthOf_def enemyIds_def map_of_eq_None_iff)

lemma map_of_mutateFirst:
  "map_of (map (\<lambda>e. (objId (mesh e), health e))
       (mutateFirst (\<lambda>e. objId (mesh e) = k) (\<lambda>e. e\<lparr>health := health e - 34\<rparr>) es)) j =
     (if j = k then map_option (\<lambda>h. h - 34) (map_of (map (\<lambda>e. (objId (mesh e), health e)) es) k)
      else map_of (map (\<lambda>e. (objId (mesh e), health e)) es) j)"
  by (induction es) auto

lemma map_of_filter_ids:
  "map_of (map (\<lambda>e. (objId (mesh e), health e)) (filter (\<lambda>e. objId (mesh e) \<noteq> k) es)) j =
     (if j = k then None else map_of (map (\<lambda>e. (objId (mesh e), health e)) es) j)"
  by (induction es) auto

lemma ids_filter:
  "map (\<lambda>e. objId (mesh e)) (filter (\<lambda>e. objId (mesh e) \<noteq> k) es) =
     removeAll k (map (\<lambda>e. objId (mesh e)) es)"
  by (induction es) auto

text \<open>The effect of a shot that is not refused, by the outcome of its ray cast.\<close>

lemma shoot_unfold:
  "\<not> (playerAmmo s \<le> 0 \<or> isReloading s) \<Longrightarrow> shoot H s = Some s' \<Longrightarrow>
   \<exists>s2. hitDetection H (emit (OnAmmoChange (playerAmmo s - 1)) (s\<lparr>playerAmmo := playerAmmo s - 1\<rparr>)) = Some s2
        \<and> s' = recoil H s2"
  by (auto simp: shoot_def split: option.splits)

lemma shoot_miss_effect:
  assumes "shoot H s = Some s'" and "\<not> (playerAmmo s \<le> 0 \<or> isReloading s)"
    and "rayFromCamera H (camera s) = (origin, dir)"
    and "intersectObjects H origin dir (map mesh (enemies s)) = [] \<or>
         (\<exists>h hs. intersectObjects H origin dir (map mesh (enemies s)) = h # hs \<and>
            healthOf (object h) s = None)"
  shows "enemies s' = enemies s \<and> nextId s' = nextId s \<and>
         emitted s' = emitted s @ [OnAmmoChange (playerAmmo s - 1)]"
proof -
  let ?s1 = "emit (OnAmmoChange (playerAmmo s - 1)) (s\<lparr>playerAmmo := playerAmmo s - 1\<rparr>)"
  from shoot_unfold[OF assms(2,1)] obtain s2 where
    h: "hitDetection H ?s1 = Some s2" and r: "s' = recoil H s2" by blast
  have c: "rayFromCamera H (camera ?s1) = (origin, dir)" using assms(3) by simp
  have "s2 = ?s1"
    using h c
  proof (rule hitDetection_miss)
    show "intersectObjects H origin dir (map mesh (enemies ?s1)) = [] \<or>
         (\<exists>h hs. intersectObjects H origin dir (map mesh (enemies ?s1)) = h # hs \<and>
            healthOf (object h) ?s1 = None)"
      using assms(4) by (simp add: healthOf_cong[of ?s1 s])
  qed
  with r show ?thesis by simp
qed

lemma shoot_hit_effect:
  assumes "shoot H s = Some s'" and "\<not> (playerAmmo s \<le> 0 \<or> isReloading s)"
    and "rayFromCamera H (camera s) = (origin, dir)"
    and "intersectObjects H origin dir (map mesh (enemies s)) = h # hs"
    and "healthOf (object h) s = Some hp" and "34 < hp"
  shows "enemyIds s' = enemyIds s \<and> nextId s' = nextId s \<and>
         (\<forall>j. healthOf j s' = (if j = object h then Some (hp - 34) else healthOf j s)) \<and>
         emitted s' = emitted s @ [OnAmmoChange (playerAmmo s - 1), OnHit]"
proof -
  let ?s1 = "emit (OnAmmoChange (playerAmmo s - 1)) (s\<lparr>playerAmmo := playerAmmo s - 1\<rparr>)"
  from shoot_unfold[OF assms(2,1)] obtain s2 where
    h: "hitDetection H ?s1 = Some s2" and r: "s' = recoil H s2" by blast
  have c: "rayFromCamera H (camera ?s1) = (origin, dir)" using assms(3) by simp
  have i: "intersectObjects H origin dir (map mesh (enemies ?s1)) = h # hs" using assms(4) by simp
  have hp: "healthOf (object h) ?s1 = Some hp" using assms(5) by (simp add: healthOf_cong[of ?s1 s])
  from hitDetection_hit[OF h c i hp assms(6)]
  have s2: "s2 = emit OnHit (?s1\<lparr>enemies := mutateFirst (\<lambda>e. objId (mesh e) = object h)
                (\<lambda>e. e\<lparr>health := health e - 34\<rparr>) (enemies ?s1)\<rparr>)" .
  have e: "enemies s' = mutateFirst (\<lambda>e. objId (mesh e) = object h)
                (\<lambda>e. e\<lparr>health := health e - 34\<rparr>) (enemies s)"
    unfolding r s2 by simp
  have "enemyIds s' = enemyIds s"
    unfolding enemyIds_eq e by (rule mutateFirst_ids) simp
  moreover have "healthOf j s' = (if j = object h then Some (hp - 34) else healthOf j s)" for j
    using assms(5) unfolding healthOf_def roster_def e map_of_mutateFirst by simp
  moreover have "nextId s' = nextId s" unfolding r s2 by simp
  moreover have "emitted s' = emitted s @ [OnAmmoChange (playerAmmo s - 1), OnHit]"
    unfolding r s2 by simp
  ultimately show ?thesis by blast
qed

lemma shoot_kill_effect:
  assumes "shoot H s = Some s'" and "\<not> (playerAmmo s \<le> 0 \<or> isReloading s)"
    and "rayFromCamera H (camera s) = (origin, dir)"
    and "intersectObjects H origin dir (map mesh (enemies s)) = h # hs"
    and "healthOf (object h) s = Some hp" and "hp \<le> 34"
    and "wellFormed s" and "length (enemies s) = 5"
  shows "enemyIds s' = removeAll (object h) (enemyIds s) @ [nextId s] \<and>
         nextId s' = Suc (nextId s) \<and>
         (\<forall>j. healthOf j s' =
            (if j = object h then None else if j = nextId s then Some 100 else healthOf j s)) \<and>
         emitted s' = emitted s @ [OnAmmoChange (playerAmmo s - 1), OnHit, OnKill]"
proof -
  let ?s1 = "emit (OnAmmoChange (playerAmmo s - 1)) (s\<lparr>playerAmmo := playerAmmo s - 1\<rparr>)"
  let ?es = "mutateFirst (\<lambda>e. objId (mesh e) = object h)
                (\<lambda>e. e\<lparr>health := health e - 34\<rparr>) (enemies s)"
  from shoot_unfold[OF assms(2,1)] obtain s2 where
    h: "hitDetection H ?s1 = Some s2" and r: "s' = recoil H s2" by blast
  have c: "rayFromCamera H (camera ?s1) = (origin, dir)" using assms(3) by simp
  have i: "intersectObjects H origin dir (map mesh (enemies ?s1)) = h # hs" using assms(4) by simp
  have hp: "healthOf (object h) ?s1 = Some hp" using assms(5) by (simp add: healthOf_cong[of ?s1 s])
  have wf: "wellFormed ?s1" using assms(7) by (simp add: wellFormed_cong[of ?s1 s])
  have len: "length (enemies ?s1) = 5" using assms(8) by simp
  from hitDetection_kill[OF h c i hp assms(6) wf len] obtain x z n where
    s2: "s2 = (emit OnKill (emit OnHit ?s1))
           \<lparr>enemies := filter (\<lambda>e. objId (mesh e) \<noteq> object h)
                         (mutateFirst (\<lambda>e. objId (mesh e) = object h)
                            (\<lambda>e. e\<lparr>health := health e - 34\<rparr>) (enemies ?s1)) @
                       [newEnemy (nextId ?s1) x z],
            nextId := Suc (nextId ?s1), rngPos := n\<rparr>" by blast
  have e: "enemies s' = filter (\<lambda>e. objId (mesh e) \<noteq> object h) ?es @ [newEnemy (nextId s) x z]"
    unfolding r s2 by simp
  have k: "object h \<in> set (enemyIds s)" using assms(5) by (rule healthOf_Some_mem)
  have lt: "object h < nextId s"
    using k assms(7) by (auto simp: wellFormed_def list_all_iff)
  have ids: "map (\<lambda>e. objId (mesh e)) ?es = enemyIds s"
    unfolding enemyIds_eq by (rule mutateFirst_ids) simp
  have "enemyIds s' = removeAll (object h) (enemyIds s) @ [nextId s]"
    unfolding enemyIds_eq[of s'] e by (simp add: ids_filter ids newEnemy_def newMesh_def)
  moreover have "healthOf j s' =
            (if j = object h then None else if j = nextId s then Some 100 else healthOf j s)" for j
  proof -
    have m: "map_of (map (\<lambda>e. (objId (mesh e), health e)) ?es) j = healthOf j s" if "j \<noteq> object h"
      using that unfolding map_of_mutateFirst healthOf_def roster_def by simp
    have n: "healthOf (nextId s) s = None"
      using assms(7) by (auto simp: healthOf_None_iff wellFormed_def list_all_iff)
    show ?thesis
      unfolding healthOf_def[of j s'] roster_def e
      using lt m n
      by (auto simp: map_add_def map_of_filter_ids newEnemy_def newMesh_def split: option.splits)
  qed
  moreover have "nextId s' = Suc (nextId s)" unfolding r s2 by simp
  moreover have "emitted s' = emitted s @ [OnAmmoChange (playerAmmo s - 1), OnHit, OnKill]"
    unfolding r s2 by simp
  ultimately show ?thesis by blast
qed

section \<open>The population invariant\<close>

lemma length_roster: "length (roster s) = length (enemies s)"
  by (simp add: roster_def)

lemma enemiesInv_cong:
  "roster s' = roster s \<Longrightarrow> nextId s' = nextId s \<Longrightarrow>
   count_list (emitted s') OnKill = count_list (emitted s) OnKill \<Longrightarrow>
   enemiesInv s' = enemiesInv s"
  by (simp add: enemiesInv_def wellFormed_def enemyIds_def)

lemma healthy_roster:
  "distinct (enemyIds s) \<Longrightarrow>
   list_all (\<lambda>p. healthy (snd p)) (roster s) \<longleftrightarrow> (\<forall>k hp. healthOf k s = Some hp \<longrightarrow> healthy hp)"
  by (auto simp: list_all_iff healthOf_def enemyIds_def)

lemma count_list_snoc: "count_list (xs @ ys) a = count_list xs a + count_list ys a"
  by (induction xs) auto

lemma shoot_enemiesInv:
  assumes inv: "enemiesInv s" and sh: "shoot H s = Some s'"
  shows "enemiesInv s'"
proof (cases "playerAmmo s \<le> 0 \<or> isReloading s")
  case True
  with sh inv show ?thesis by (simp add: shoot_def)
next
  case False
  obtain origin dir where ray: "rayFromCamera H (camera s) = (origin, dir)"
    by (cases "rayFromCamera H (camera s)")
  from inv have wf: "wellFormed s" and len: "length (enemies s) = 5"
    and hl: "\<forall>k hp. healthOf k s = Some hp \<longrightarrow> healthy hp"
    and nx: "nextId s = 13 + 5 + count_list (emitted s) OnKill"
    using healthy_roster[of s] by (auto simp: enemiesInv_def length_roster wellFormed_def)
  let ?is = "intersectObjects H origin dir (map mesh (enemies s))"
  consider (miss) "?is = [] \<or> (\<exists>h hs. ?is = h # hs \<and> healthOf (object h) s = None)"
    | (hit) h hs hp where "?is = h # hs" "healthOf (object h) s = Some hp" "34 < hp"
    | (kill) h hs hp where "?is = h # hs" "healthOf (object h) s = Some hp" "hp \<le> 34"
  proof (cases ?is)
    case Nil
    then show ?thesis using miss by simp
  next
    case (Cons h hs)
    show ?thesis
    proof (cases "healthOf (object h) s")
      case None
      with Cons show ?thesis using miss by simp
    next
      case (Some hp)
      with Cons show ?thesis using hit[of h hs hp] kill[of h hs hp] by (cases "34 < hp") auto
    qed
  qed
  then show ?thesis
  proof cases
    case miss
    from shoot_miss_effect[OF sh False ray miss] inv show ?thesis
      by (simp add: enemiesInv_cong[of s' s] roster_def count_list_snoc)
  next
    case hit
    from shoot_hit_effect[OF sh False ray hit]
    have e: "enemyIds s' = enemyIds s" "nextId s' = nextId s"
      "\<And>j. healthOf j s' = (if j = object h then Some (hp - 34) else healthOf j s)"
      "emitted s' = emitted s @ [OnAmmoChange (playerAmmo s - 1), OnHit]" by auto
    from hl hit(2,3) have "healthy hp" by blast
    with hit(3) have "healthy (hp - 34)" by (auto simp: healthy_def)
    with hl e(3) have "\<forall>k hp'. healthOf k s' = Some hp' \<longrightarrow> healthy hp'" by (auto split: if_splits)
    moreover have "wellFormed s'" using wf e(1,2) by (simp add: wellFormed_def)
    moreover have "length (roster s') = 5"
      using len e(1) length_enemyIds[of s] length_enemyIds[of s'] by (simp add: length_roster)
    ultimately show ?thesis
      using healthy_roster[of s'] nx e(2,4)
      by (simp add: enemiesInv_def wellFormed_def count_list_snoc)
  next
    case kill
    from shoot_kill_effect[OF sh False ray kill wf len]
    have e: "enemyIds s' = removeAll (object h) (enemyIds s) @ [nextId s]"
      "nextId s' = Suc (nextId s)"
      "\<And>j. healthOf j s' =
            (if j = object h then None else if j = nextId s then Some 100 else healthOf j s)"
      "emitted s' = emitted s @ [OnAmmoChange (playerAmmo s - 1), OnHit, OnKill]" by auto
    have k: "object h \<in> set (enemyIds s)" using kill(2) by (rule healthOf_Some_mem)
    from wf have d: "distinct (enemyIds s)" and lt: "\<forall>j \<in> set (enemyIds s). j < nextId s"
      by (auto simp: wellFormed_def list_all_iff)
    have "wellFormed s'"
      unfolding wellFormed_def e(1,2) using d lt
      by (auto simp: list_all_iff distinct_removeAll less_Suc_eq)
    moreover have "length (roster s') = 5"
      using distinct_removeAll_length[OF d k] len length_enemyIds[of s] length_enemyIds[of s']
      by (simp add: e(1) length_roster)
    moreover have "\<forall>k hp'. healthOf k s' = Some hp' \<longrightarrow> healthy hp'"
      using hl e(3) by (auto simp: healthy_def split: if_splits)
    ultimately show ?thesis
      using healthy_roster[of s'] nx e(2,4)
      by (simp add: enemiesInv_def wellFormed_def count_list_snoc)
  qed
qed

lemma hitPlayer_emitted: "\<exists>xs. emitted (hitPlayer s) = emitted s @ xs \<and> OnKill \<notin> set xs"
  by (simp add: hitPlayer_def Let_def)

lemma enemyShoot_emitted:
  "enemyShoot H t e s = (e', s') \<Longrightarrow> \<exists>xs. emitted s' = emitted s @ xs \<and> OnKill \<notin> set xs"
  using hitPlayer_emitted[of "s\<lparr>rngPos := Suc (rngPos s)\<rparr>"]
  by (auto simp: enemyShoot_def random_def Let_def split: if_splits prod.splits)

lemma updateEnemy_emitted:
  "updateEnemy H d t e s = (e', s') \<Longrightarrow> \<exists>xs. emitted s' = emitted s @ xs \<and> OnKill \<notin> set xs"
  unfolding updateEnemy_def Let_def
  by (auto split: if_splits prod.splits dest!: retarget_game enemyShoot_emitted)

lemma forEachEnemy_emitted:
  "forEachEnemy H d t es s = (es', s') \<Longrightarrow> \<exists>xs. emitted s' = emitted s @ xs \<and> OnKill \<notin> set xs"
proof (induction es arbitrary: s es' s')
  case Nil
  then show ?case by simp
next
  case (Cons e es)
  obtain e1 s1 where u: "updateEnemy H d t e s = (e1, s1)" by (cases "updateEnemy H d t e s")
  obtain es2 s2 where f: "forEachEnemy H d t es s1 = (es2, s2)" by (cases "forEachEnemy H d t es s1")
  from Cons.prems u f have "s' = s2" by simp
  with Cons.IH[OF f] updateEnemy_emitted[OF u] show ?case by auto
qed

lemma count_no_kill: "OnKill \<notin> set xs \<Longrightarrow> count_list (ys @ xs) OnKill = count_list ys OnKill"
  by (simp add: count_list_snoc count_list_0_iff)

lemma updateEnemies_roster:
  "roster (updateEnemies H d t s) = roster s \<and>
   count_list (emitted (updateEnemies H d t s)) OnKill = count_list (emitted s) OnKill"
proof -
  obtain es s1 where f: "forEachEnemy H d t (enemies s) s = (es, s1)"
    by (cases "forEachEnemy H d t (enemies s) s")
  then have u: "updateEnemies H d t s = s1\<lparr>enemies := es\<rparr>" by (simp add: updateEnemies_def)
  from forEachEnemy_enemies[OF f] have "roster (s1\<lparr>enemies := es\<rparr>) = roster s"
    by (simp add: roster_def)
  moreover from forEachEnemy_emitted[OF f]
  have "count_list (emitted (s1\<lparr>enemies := es\<rparr>)) OnKill = count_list (emitted s) OnKill"
    by (auto simp: count_no_kill)
  ultimately show ?thesis unfolding u by simp
qed

lemma animate_enemiesInv: "enemiesInv (animate H d t s) = enemiesInv s"
proof (cases "isLocked s")
  case True
  let ?p = "updatePlayer H d s"
  have p: "roster ?p = roster s" "nextId ?p = nextId s" "emitted ?p = emitted s"
    using updatePlayer_fields[of H d s] by (simp_all add: roster_def)
  have "enemiesInv (updateEnemies H d t ?p) = enemiesInv s"
  proof (rule enemiesInv_cong)
    show "roster (updateEnemies H d t ?p) = roster s"
      using updateEnemies_roster[of H d t ?p] p by simp
    show "nextId (updateEnemies H d t ?p) = nextId s"
      using updateEnemies_fields[of H d t ?p] p by simp
    show "count_list (emitted (updateEnemies H d t ?p)) OnKill = count_list (emitted s) OnKill"
      using updateEnemies_roster[of H d t ?p] p by simp
  qed
  with True show ?thesis by (simp add: animate_def)
next
  case False
  then show ?thesis by (simp add: animate_def)
qed

lemma runTimer_fields:
  "playerHealth (runTimer now s) = playerHealth s \<and> enemies (runTimer now s) = enemies s \<and>
   walls (runTimer now s) = walls s \<and> nextId (runTimer now s) = nextId s \<and>
   camera (runTimer now s) = camera s \<and> isLocked (runTimer now s) = isLocked s \<and>
   (\<exists>xs. emitted (runTimer now s) = emitted s @ xs \<and> OnKill \<notin> set xs)"
  by (cases "timers s") (auto simp: runTimer_def reloadDone_def Let_def split: if_splits)

lemma step_enemiesInv: "enemiesInv s \<Longrightarrow> step H ev s = Some s' \<Longrightarrow> enemiesInv s'"
proof -
  assume a: "enemiesInv s" and st: "step H ev s = Some s'"
  obtain now e where ev: "ev = (now, e)" by (cases ev)
  have same: "enemiesInv s'"
    if "enemies s' = enemies s" "nextId s' = nextId s"
       "\<exists>xs. emitted s' = emitted s @ xs \<and> OnKill \<notin> set xs"
  proof -
    have "enemiesInv s' = enemiesInv s"
      using that by (intro enemiesInv_cong) (auto simp: roster_def count_no_kill)
    with a show ?thesis by simp
  qed
  show ?thesis
  proof (cases e)
    case (KeyDown code)
    with st ev have "s' = onKeyDown now code s" by simp
    with onKeyDown_fields[of now code s] show ?thesis by (intro same) simp_all
  next
    case (KeyUp code)
    with st ev have "s' = onKeyUp code s" by simp
    with onKeyUp_fields[of code s] show ?thesis by (intro same) simp_all
  next
    case (MouseDown b)
    with st ev have "s' = s \<or> shoot H s = Some s'"
      by (auto simp: onMouseDown_def split: if_splits)
    with a shoot_enemiesInv[OF a] show ?thesis by blast
  next
    case (MouseMove mx my)
    with st ev have "s' = onMouseMove H mx my s" by simp
    with onMouseMove_fields[of H mx my s] show ?thesis by (intro same) simp_all
  next
    case (PointerLockChange b)
    with st ev have "s' = s\<lparr>isLocked := b\<rparr>" by simp
    then show ?thesis by (intro same) simp_all
  next
    case (AnimationFrame d)
    with a st ev show ?thesis by (auto simp: animate_enemiesInv)
  next
    case TimerTurn
    with st ev have "s' = runTimer now s" by simp
    with runTimer_fields[of now s] show ?thesis by (intro same) simp_all
  qed
qed

lemma run_enemiesInv: "enemiesInv s \<Longrightarrow> run H evs s = Some s' \<Longrightarrow> enemiesInv s'"
proof (induction evs arbitrary: s)
  case Nil
  then show ?case by simp
next
  case (Cons ev evs)
  from Cons.prems(2) obtain s1 where 1: "step H ev s = Some s1" and 2: "run H evs s1 = Some s'"
    by (auto split: option.splits)
  from Cons.IH[OF step_enemiesInv[OF Cons.prems(1) 1] 2] show ?case .
qed

lemma newGame_enemiesInv: "newGame H = Some s \<Longrightarrow> enemiesInv s"
proof -
  assume n: "newGame H = Some s"
  let ?w = "createCover (createArena emptyGame)"
  from n have sp: "spawnEnemies H 5 ?w = Some s" by (simp add: newGame_def)
  from spawnEnemies_enemies[OF sp] obtain new where
    new: "enemies s = new" "map (\<lambda>e. objId (mesh e)) new = [13 ..< 18]" "\<forall>e \<in> set new. health e = 100"
    by (auto simp: createWorld_fields)
  from spawnEnemies_game[OF sp] have f: "nextId s = 18" "emitted s = []"
    by (simp_all add: createWorld_fields)
  have ids: "enemyIds s = [13 ..< 18]" using new(1,2) by (simp add: enemyIds_eq)
  have "length (enemyIds s) = 5" unfolding ids by simp
  then have "length (roster s) = 5" by (simp add: enemyIds_def)
  moreover have "wellFormed s" unfolding wellFormed_def ids f by (simp add: list_all_iff)
  moreover have "list_all (\<lambda>p. healthy (snd p)) (roster s)"
    using new(1,3) by (auto simp: roster_def list_all_iff healthy_def)
  ultimately show ?thesis using f by (simp add: enemiesInv_def)
qed

lemma play_enemiesInv: "play H evs = Some s \<Longrightarrow> enemiesInv s"
  by (auto simp: play_def split: option.splits dest: newGame_enemiesInv run_enemiesInv)

section \<open>Population floor: claim C6\<close>

lemma shoot_cases:
  assumes "enemiesInv s" and "shoot H s = Some s'" and "\<not> (playerAmmo s \<le> 0 \<or> isReloading s)"
  obtains
    (miss) "firstHit H s = None \<or> (\<exists>k. firstHit H s = Some k \<and> healthOf k s = None)"
      "enemies s' = enemies s" "nextId s' = nextId s"
      "emitted s' = emitted s @ [OnAmmoChange (playerAmmo s - 1)]"
  | (hit) k hp where "firstHit H s = Some k" "healthOf k s = Some hp" "34 < hp"
      "enemyIds s' = enemyIds s" "nextId s' = nextId s"
      "\<And>j. healthOf j s' = (if j = k then Some (hp - 34) else healthOf j s)"
      "emitted s' = emitted s @ [OnAmmoChange (playerAmmo s - 1), OnHit]"
  | (kill) k hp where "firstHit H s = Some k" "healthOf k s = Some hp" "hp \<le> 34"
      "enemyIds s' = removeAll k (enemyIds s) @ [nextId s]" "nextId s' = Suc (nextId s)"
      "\<And>j. healthOf j s' = (if j = k then None else if j = nextId s then Some 100 else healthOf j s)"
      "emitted s' = emitted s @ [OnAmmoChange (playerAmmo s - 1), OnHit, OnKill]"
proof -
  obtain origin dir where ray: "rayFromCamera H (camera s) = (origin, dir)"
    by (cases "rayFromCamera H (camera s)")
  from assms(1) have wf: "wellFormed s" and len: "length (enemies s) = 5"
    by (auto simp: enemiesInv_def length_roster)
  let ?is = "intersectObjects H origin dir (map mesh (enemies s))"
  show thesis
  proof (cases ?is)
    case Nil
    then have "firstHit H s = None" by (simp add: firstHit_def ray)
    with shoot_miss_effect[OF assms(2,3) ray] Nil miss show ?thesis by simp
  next
    case (Cons h hs)
    then have f: "firstHit H s = Some (object h)" by (simp add: firstHit_def ray)
    show ?thesis
    proof (cases "healthOf (object h) s")
      case None
      with shoot_miss_effect[OF assms(2,3) ray] Cons f miss show ?thesis by simp
    next
      case (Some hp)
      show ?thesis
      proof (cases "34 < hp")
        case True
        from shoot_hit_effect[OF assms(2,3) ray Cons Some True] f Some True hit[of "object h" hp]
        show ?thesis by simp
      next
        case False
        then have le: "hp \<le> 34" by simp
        from shoot_kill_effect[OF assms(2,3) ray Cons Some le wf len] f Some le kill[of "object h" hp]
        show ?thesis by simp
      qed
    qed
  qed
qed

lemma hitDetection_returns:
  assumes "\<not> rejected H (rngPos s + 2 * k)"
  shows "\<exists>s'. hitDetection H s = Some s'"
proof -
  have sp: "\<exists>s'. spawnEnemies H 1 t = Some s'" if "rngPos t = rngPos s" for t
    using spawnEnemies_returns[of H t k] assms that by simp
  have "\<exists>s'. killEnemy H e t = Some s'" if "rngPos t = rngPos s" for e t
    unfolding killEnemy_def Let_def
    using sp[of "emit OnKill (t\<lparr>enemies := filter (\<lambda>a. \<not> sameEnemy a e) (enemies t)\<rparr>)"] that
    by (simp del: spawnEnemies.simps)
  then show ?thesis
    unfolding hitDetection_def Let_def
    by (auto split: prod.splits list.splits option.splits)
qed

lemma shoot_returns:
  "\<not> rejected H (rngPos s + 2 * k) \<Longrightarrow> \<exists>s'. shoot H s = Some s'"
  using hitDetection_returns[of H "emit (OnAmmoChange (playerAmmo s - 1)) (s\<lparr>playerAmmo := playerAmmo s - 1\<rparr>)" k]
  by (auto simp: shoot_def)

text \<open>
  Claim C6. In every state that a run of events reaches from the start of a match there are
  five live enemies, and the number of enemies created is five plus the number of kills
  signalled, so \<open>N\<close> deaths have brought \<open>N\<close> replacements. A shot that signals a kill returns a
  state in which the dead enemy is gone and exactly one new enemy, of health 100, has been
  appended, within the same call; a shot that signals none leaves the population as it is.
  The shot returns as soon as the random source offers one spawn position outside the
  excluded square.
\<close>

theorem population_restored:
  assumes "play H evs = Some s"
  shows "length (enemies s) = 5 \<and> spawned s = 5 + count_list (emitted s) OnKill \<and>
         (\<forall>s'. shoot H s = Some s' \<longrightarrow>
            length (enemies s') = 5 \<and>
            (count_list (emitted s') OnKill = count_list (emitted s) OnKill \<and>
               spawned s' = spawned s \<and> enemyIds s' = enemyIds s
             \<or> count_list (emitted s') OnKill = Suc (count_list (emitted s) OnKill) \<and>
               spawned s' = Suc (spawned s) \<and>
               (\<exists>k \<in> set (enemyIds s). enemyIds s' = removeAll k (enemyIds s) @ [nextId s]) \<and>
               healthOf (nextId s) s' = Some 100)) \<and>
         (\<forall>k. \<not> rejected H (rngPos s + 2 * k) \<longrightarrow> (\<exists>s'. shoot H s = Some s'))"
proof -
  from assms have inv: "enemiesInv s" by (rule play_enemiesInv)
  then have a: "length (enemies s) = 5" "spawned s = 5 + count_list (emitted s) OnKill"
    by (simp_all add: enemiesInv_def length_roster spawned_def)
  have b: "length (enemies s') = 5 \<and>
            (count_list (emitted s') OnKill = count_list (emitted s) OnKill \<and>
               spawned s' = spawned s \<and> enemyIds s' = enemyIds s
             \<or> count_list (emitted s') OnKill = Suc (count_list (emitted s) OnKill) \<and>
               spawned s' = Suc (spawned s) \<and>
               (\<exists>k \<in> set (enemyIds s). enemyIds s' = removeAll k (enemyIds s) @ [nextId s]) \<and>
               healthOf (nextId s) s' = Some 100)"
    if sh: "shoot H s = Some s'" for s'
  proof -
    from shoot_enemiesInv[OF inv sh] have l: "length (enemies s') = 5"
      by (simp add: enemiesInv_def length_roster)
    show ?thesis
    proof (cases "playerAmmo s \<le> 0 \<or> isReloading s")
      case True
      with sh have "s' = s" by (simp add: shoot_def)
      with l show ?thesis by simp
    next
      case False
      from inv sh False show ?thesis
      proof (cases rule: shoot_cases)
        case miss
        with l show ?thesis by (simp add: spawned_def enemyIds_def roster_def count_list_snoc)
      next
        case (hit k hp)
        with l show ?thesis by (simp add: spawned_def count_list_snoc)
      next
        case (kill k hp)
        have "k \<in> set (enemyIds s)" using kill(2) by (rule healthOf_Some_mem)
        moreover have "k \<noteq> nextId s"
          using calculation inv by (auto simp: enemiesInv_def wellFormed_def list_all_iff)
        moreover have "13 \<le> nextId s" using inv by (simp add: enemiesInv_def)
        ultimately show ?thesis using l kill
          by (auto simp: spawned_def count_list_snoc)
      qed
    qed
  qed
  have c: "\<forall>s'. shoot H s = Some s' \<longrightarrow>
            length (enemies s') = 5 \<and>
            (count_list (emitted s') OnKill = count_list (emitted s) OnKill \<and>
               spawned s' = spawned s \<and> enemyIds s' = enemyIds s
             \<or> count_list (emitted s') OnKill = Suc (count_list (emitted s) OnKill) \<and>
               spawned s' = Suc (spawned s) \<and>
               (\<exists>k \<in> set (enemyIds s). enemyIds s' = removeAll k (enemyIds s) @ [nextId s]) \<and>
               healthOf (nextId s) s' = Some 100)"
    by (intro allI impI) (rule b)
  have d: "\<forall>k. \<not> rejected H (rngPos s + 2 * k) \<longrightarrow> (\<exists>s'. shoot H s = Some s')"
    by (intro allI impI) (rule shoot_returns)
  show ?thesis by (rule conjI[OF a(1) conjI[OF a(2) conjI[OF c d]]])
qed

lemma play_twiceHit:
  "play testHost [(0, PointerLockChange True), (1, MouseDown 0), (2, MouseDown 0)] = Some twiceHit"
  by (simp add: play_def newGame_testHost onMouseDown_def shoot_def hitDetection_def
      testGame_def emptyGame_def testHost_sel newEnemy_def newMesh_def emit_def Let_def
      recoil_def random_def setRotation_def twiceHit_def)

lemma shoot_twiceHit:
  "\<exists>s'. shoot testHost twiceHit = Some s' \<and> length (enemies s') = 5 \<and>
     count_list (emitted s') OnKill = 1 \<and> spawned s' = 6 \<and>
     enemyIds s' = [14, 15, 16, 17, 18] \<and> healthOf 18 s' = Some 100 \<and> healthOf 13 s' = None"
  by (simp add: shoot_def hitDetection_def killEnemy_def sameEnemy_def spawnPosition_testHost
      testGame_def emptyGame_def testHost_sel newEnemy_def newMesh_def emit_def Let_def
      recoil_def random_def setRotation_def twiceHit_def spawned_def enemyIds_def roster_def
      healthOf_def)

theorem population_restored_witness:
  "\<exists>s s'. play testHost [(0, PointerLockChange True), (1, MouseDown 0), (2, MouseDown 0)] = Some s \<and>
     \<not> rejected testHost (rngPos s + 2 * 0) \<and>
     shoot testHost s = Some s' \<and>
     length (enemies s) = 5 \<and> spawned s = 5 \<and> count_list (emitted s) OnKill = 0 \<and>
     length (enemies s') = 5 \<and> spawned s' = 6 \<and> count_list (emitted s') OnKill = 1 \<and>
     enemyIds s' = removeAll 13 (enemyIds s) @ [nextId s] \<and> healthOf (nextId s) s' = Some 100"
proof -
  from shoot_twiceHit obtain s' where
    s': "shoot testHost twiceHit = Some s'" "count_list (emitted s') OnKill = 1" "spawned s' = 6"
      "enemyIds s' = [14, 15, 16, 17, 18]" "healthOf 18 s' = Some 100"
    by blast
  have r: "\<not> rejected testHost (rngPos twiceHit + 2 * 0)"
    by (simp add: rejected_def testHost_sel twiceHit_def)
  have e: "count_list (emitted twiceHit) OnKill = 0" "nextId twiceHit = 18"
    "enemyIds twiceHit = [13, 14, 15, 16, 17]"
    by (simp_all add: twiceHit_def testGame_def enemyIds_def roster_def newEnemy_def newMesh_def)
  from population_restored[OF play_twiceHit] s' e r
  have "length (enemies twiceHit) = 5 \<and> spawned twiceHit = 5 \<and> length (enemies s') = 5"
    by auto
  with play_twiceHit s' e r show ?thesis by (intro exI[of _ twiceHit] exI[of _ s']) simp
qed

section \<open>When a shot returns\<close>

text \<open>A shot returns when it kills nobody, and then it has made the two recoil draws.\<close>

lemma firstHit_ammo:
  "firstHit H (emit c (s\<lparr>playerAmmo := x\<rparr>)) = firstHit H s"
  by (simp add: firstHit_def emit_def)

lemma healthOf_ammo:
  "healthOf k (emit c (s\<lparr>playerAmmo := x\<rparr>)) = healthOf k s"
  by (simp add: healthOf_def roster_def emit_def)

lemma rngPos_recoil: "rngPos (recoil H s) = rngPos s + 2"
  by (simp add: recoil_def random_def Let_def)

lemma hitDetection_survivor:
  assumes "\<And>k hp. firstHit H s = Some k \<Longrightarrow> healthOf k s = Some hp \<Longrightarrow> 34 < hp"
  shows "\<exists>s'. hitDetection H s = Some s' \<and> rngPos s' = rngPos s"
proof -
  obtain origin dir where ray: "rayFromCamera H (camera s) = (origin, dir)"
    by (cases "rayFromCamera H (camera s)")
  show ?thesis
  proof (cases "intersectObjects H origin dir (map mesh (enemies s))")
    case Nil
    with ray show ?thesis by (simp add: hitDetection_def)
  next
    case (Cons h hs)
    then have f: "firstHit H s = Some (object h)" by (simp add: firstHit_def ray)
    show ?thesis
    proof (cases "find (\<lambda>e. objId (mesh e) = object h) (enemies s)")
      case None
      with ray Cons show ?thesis by (simp add: hitDetection_def)
    next
      case (Some e)
      then have "healthOf (object h) s = Some (health e)" by (simp add: healthOf_find)
      from assms[OF f this] have "\<not> health e - 34 \<le> 0" by simp
      with ray Cons Some show ?thesis by (simp add: hitDetection_def Let_def emit_def)
    qed
  qed
qed

lemma shoot_survivor:
  assumes "\<And>k hp. firstHit H s = Some k \<Longrightarrow> healthOf k s = Some hp \<Longrightarrow> 34 < hp"
  shows "\<exists>s'. shoot H s = Some s' \<and>
           (\<not> (playerAmmo s \<le> 0 \<or> isReloading s) \<longrightarrow> rngPos s' = rngPos s + 2)"
proof -
  let ?t = "emit (OnAmmoChange (playerAmmo s - 1)) (s\<lparr>playerAmmo := playerAmmo s - 1\<rparr>)"
  have "\<exists>s2. hitDetection H ?t = Some s2 \<and> rngPos s2 = rngPos ?t"
  proof (rule hitDetection_survivor)
    fix k hp
    assume "firstHit H ?t = Some k" and "healthOf k ?t = Some hp"
    then show "34 < hp" using assms by (simp add: firstHit_ammo healthOf_ammo)
  qed
  then obtain s2 where
    s2: "hitDetection H ?t = Some s2" "rngPos s2 = rngPos ?t" by blast
  have "rngPos ?t = rngPos s" by (simp add: emit_def)
  with s2 show ?thesis by (simp add: shoot_def rngPos_recoil)
qed

text \<open>A shot returns when the spawn loop accepts a pair of draws, which it needs to only
  when the shot kills.\<close>

lemma shoot_returns_if:
  assumes "\<And>k hp. firstHit H s = Some k \<Longrightarrow> healthOf k s = Some hp \<Longrightarrow> hp \<le> 34 \<Longrightarrow>
             \<not> rejected H (rngPos s + 2 * j)"
  shows "\<exists>s'. shoot H s = Some s'"
proof (cases "\<exists>k hp. firstHit H s = Some k \<and> healthOf k s = Some hp \<and> hp \<le> 34")
  case True
  with assms have "\<not> rejected H (rngPos s + 2 * j)" by blast
  then show ?thesis by (rule shoot_returns)
next
  case False
  have "\<exists>s'. shoot H s = Some s' \<and>
           (\<not> (playerAmmo s \<le> 0 \<or> isReloading s) \<longrightarrow> rngPos s' = rngPos s + 2)"
  proof (rule shoot_survivor)
    fix k hp
    assume "firstHit H s = Some k" and "healthOf k s = Some hp"
    with False show "34 < hp" by force
  qed
  then show ?thesis by blast
qed

text \<open>The test data.\<close>

lemma aimHost_sel:
  "mathRandom aimHost i =
     (if i = 0 then 1/2
      else if i < 10 \<or> i = 14 \<or> i = 15 then (if even i then 3/4 else 7/20) else 1/2)"
  "quatFromEuler aimHost ord e = Quat 0 0 0 1"
  "rayFromCamera aimHost c = (position c, Vec3 0 0 (-1))"
  "intersectObjects aimHost = rayCast"
  by (simp_all add: aimHost_def)

lemma spawnPosition_aimHost:
  "spawnPosition aimHost 0 = Some (0, - 24, 2)"
  "even i \<Longrightarrow> 0 < i \<Longrightarrow> i < 10 \<or> i = 14 \<Longrightarrow> spawnPosition aimHost i = Some (40, - 24, Suc (Suc i))"
  by (subst spawnPosition.simps, auto simp: aimHost_sel)+

lemma newGame_aimHost: "newGame aimHost = Some aimGame"
proof -
  have five: "(5::nat) = Suc (Suc (Suc (Suc (Suc 0))))" by simp
  show ?thesis
    unfolding newGame_def five
    by (simp add: createCover_def createArena_def coverPositions_def addWall_def
        emptyGame_def Let_def spawnPosition_aimHost aimGame_def testWalls_def)
      (simp add: eval_nat_numeral)
qed

text \<open>The ray of the camera at the player's start meets the box of an enemy at
  \<open>x = 0\<close>, \<open>z = -24\<close> at distance 22, and passes an enemy at \<open>x = 40\<close>.\<close>

lemma rayBox_enemy:
  "rayBox (Vec3 0 10 0) (Vec3 0 0 (-1)) (setFromObject (mesh (newEnemy i 0 (- 24)))) = Some 22"
  "rayBox (Vec3 0 10 0) (Vec3 0 0 (-1)) (setFromObject (mesh (newEnemy i 40 (- 24)))) = None"
  by (simp_all add: rayBox_def facePlanes_def containsPoint_def setFromObject_def
      setFromCenterAndSize_def newEnemy_def newMesh_def addVectors_def subVectors_def
      multiplyScalar_def Let_def)

lemma replicate_numeral:
  "replicate 2 x = [x, x]" "replicate 3 x = [x, x, x]" "replicate 4 x = [x, x, x, x]"
  "replicate 5 x = [x, x, x, x, x]"
  by (simp_all add: eval_nat_numeral)

lemmas aim_eval = onMouseDown_def shoot_def hitDetection_def killEnemy_def sameEnemy_def
  spawnPosition_aimHost aimGame_def emptyGame_def aimHost_sel newEnemy_def
  newMesh_def emit_def Let_def recoil_def random_def setRotation_def rayCast_def rayBox_def
  facePlanes_def containsPoint_def setFromObject_def setFromCenterAndSize_def addVectors_def
  subVectors_def multiplyScalar_def firstHit_def healthOf_def roster_def replicate_numeral

section \<open>Damage and kills: claim C3\<close>
















section \<open>Walls and shots: claim C9\<close>

lemma spawnEnemies_walls:
  "spawnEnemies H n (s\<lparr>walls := ws\<rparr>) = map_option (\<lambda>t. t\<lparr>walls := ws\<rparr>) (spawnEnemies H n s)"
proof (induction n arbitrary: s)
  case 0
  show ?case by simp
next
  case (Suc n)
  show ?case
  proof (cases "spawnPosition H (rngPos s)")
    case None
    then show ?thesis by simp
  next
    case (Some r)
    obtain x z i where r: "r = (x, z, i)" by (cases r)
    let ?t = "s\<lparr>enemies := enemies s @ [newEnemy (nextId s) x z],
               nextId := Suc (nextId s), rngPos := i\<rparr>"
    have c: "(s\<lparr>walls := ws\<rparr>)\<lparr>enemies := enemies s @ [newEnemy (nextId s) x z],
               nextId := Suc (nextId s), rngPos := i\<rparr> = ?t\<lparr>walls := ws\<rparr>"
      by simp
    from Some r show ?thesis by (simp add: c Suc.IH[of ?t])
  qed
qed

lemma killEnemy_walls:
  "killEnemy H e (s\<lparr>walls := ws\<rparr>) = map_option (\<lambda>t. t\<lparr>walls := ws\<rparr>) (killEnemy H e s)"
proof -
  let ?t = "emit OnKill (s\<lparr>enemies := filter (\<lambda>a. \<not> sameEnemy a e) (enemies s)\<rparr>)"
  have c: "emit OnKill (s\<lparr>walls := ws, enemies := filter (\<lambda>a. \<not> sameEnemy a e) (enemies s)\<rparr>) =
             ?t\<lparr>walls := ws\<rparr>"
    by (simp add: emit_def)
  show ?thesis
    unfolding killEnemy_def Let_def
    by (simp add: c spawnEnemies_walls[where s = ?t] del: spawnEnemies.simps)
qed

lemma hitDetection_walls:
  "hitDetection H (s\<lparr>walls := ws\<rparr>) = map_option (\<lambda>t. t\<lparr>walls := ws\<rparr>) (hitDetection H s)"
proof -
  have c: "emit OnHit (s\<lparr>walls := ws, enemies := es\<rparr>) = (emit OnHit (s\<lparr>enemies := es\<rparr>))\<lparr>walls := ws\<rparr>"
    for es by (simp add: emit_def)
  show ?thesis
    unfolding hitDetection_def Let_def
    by (simp add: c killEnemy_walls split: prod.splits list.splits option.splits)
qed

lemma recoil_walls: "recoil H (s\<lparr>walls := ws\<rparr>) = (recoil H s)\<lparr>walls := ws\<rparr>"
  by (simp add: recoil_def random_def Let_def)

lemma shoot_walls:
  "shoot H (s\<lparr>walls := ws\<rparr>) = map_option (\<lambda>t. t\<lparr>walls := ws\<rparr>) (shoot H s)"
proof -
  let ?t = "emit (OnAmmoChange (playerAmmo s - 1)) (s\<lparr>playerAmmo := playerAmmo s - 1\<rparr>)"
  have c: "emit (OnAmmoChange (playerAmmo s - 1)) (s\<lparr>walls := ws, playerAmmo := playerAmmo s - 1\<rparr>) =
             ?t\<lparr>walls := ws\<rparr>"
    by (simp add: emit_def)
  show ?thesis
    unfolding shoot_def
    by (simp add: c hitDetection_walls[where s = ?t] recoil_walls split: option.splits)
qed

lemma firstHit_walls: "firstHit H (s\<lparr>walls := ws\<rparr>) = firstHit H s"
  by (simp add: firstHit_def)

text \<open>
  Claim C9. The ray of a shot is cast against the meshes of the live enemies only. So when
  a shot is fired, in a state that a run of events reaches from the start of a match, and
  the first enemy mesh on the ray belongs to the live enemy \<open>k\<close>, the shot returns and that
  enemy is hit: the hit callback is invoked, and the enemy loses 34 health, or is removed
  when that leaves it no health. For the shot to return when it kills, the random source
  has to accept a spawn position at some draw. The walls of the state play no part: with
  any other list of walls in their place, wherever they stand, the shot meets the same
  enemy and returns the same state.
\<close>

theorem shots_ignore_walls:
  assumes "play H evs = Some s" and "0 < playerAmmo s" and "\<not> isReloading s"
    and "firstHit H s = Some k" and "healthOf k s = Some hp"
    and "hp \<le> 34 \<longrightarrow> \<not> rejected H (rngPos s + 2 * j)"
  shows "\<exists>s'. shoot H s = Some s' \<and>
           healthOf k s' = (if hp - 34 \<le> 0 then None else Some (hp - 34)) \<and>
           OnHit \<in> set (drop (length (emitted s)) (emitted s')) \<and>
           (\<forall>ws. firstHit H (s\<lparr>walls := ws\<rparr>) = Some k \<and>
                 shoot H (s\<lparr>walls := ws\<rparr>) = Some (s'\<lparr>walls := ws\<rparr>))"
proof -
  from assms(2,3) have ok: "\<not> (playerAmmo s \<le> 0 \<or> isReloading s)" by simp
  have "\<exists>s'. shoot H s = Some s'"
  proof (rule shoot_returns_if[where j = j])
    fix k' hp'
    assume "firstHit H s = Some k'" and "healthOf k' s = Some hp'" and "hp' \<le> 34"
    with assms(4,5,6) show "\<not> rejected H (rngPos s + 2 * j)" by simp
  qed
  then obtain s' where sh: "shoot H s = Some s'" by blast
  have "healthOf k s' = (if hp - 34 \<le> 0 then None else Some (hp - 34)) \<and>
         OnHit \<in> set (drop (length (emitted s)) (emitted s'))"
    using play_enemiesInv[OF assms(1)] sh ok
  proof (cases rule: shoot_cases)
    case miss
    with assms(4,5) show ?thesis by auto
  next
    case (hit j q)
    with assms(4,5) show ?thesis by auto
  next
    case (kill j q)
    with assms(4,5) show ?thesis by auto
  qed
  moreover have "firstHit H (s\<lparr>walls := ws\<rparr>) = Some k \<and>
               shoot H (s\<lparr>walls := ws\<rparr>) = Some (s'\<lparr>walls := ws\<rparr>)" for ws
    using assms(4) sh by (simp add: firstHit_walls shoot_walls)
  ultimately show ?thesis using sh by blast
qed

lemma play_twiceAimed:
  "play aimHost [(0, PointerLockChange True), (1, MouseDown 0), (2, MouseDown 0)] = Some twiceAimed"
  by (simp add: play_def newGame_aimHost twiceAimed_def aim_eval)

text \<open>A ray cast that tested the block too would meet it at distance 8, before the
  enemy behind it at distance 22.\<close>

lemma rayCast_blockingWall:
  "map distance (rayCast (Vec3 0 10 0) (Vec3 0 0 (- 1))
     (blockingWall @ map mesh (enemies aimGame))) = [8, 22]"
  "map distance (rayCast (Vec3 0 10 0) (Vec3 0 0 (- 1))
     (blockingWall @ map mesh (enemies twiceAimed))) = [8, 22]"
  by (simp_all add: blockingWall_def twiceAimed_def aim_eval)

theorem shots_ignore_walls_witness:
  "play aimHost [] = Some aimGame \<and> 0 < playerAmmo aimGame \<and> \<not> isReloading aimGame \<and>
   firstHit aimHost aimGame = Some 13 \<and> healthOf 13 aimGame = Some 100 \<and>
   map distance (rayCast (position (camera aimGame)) (Vec3 0 0 (- 1))
     (blockingWall @ map mesh (enemies aimGame))) = [8, 22] \<and>
   (\<exists>s'. shoot aimHost aimGame = Some s' \<and> healthOf 13 s' = Some 66 \<and>
      OnHit \<in> set (emitted s') \<and>
      shoot aimHost (aimGame\<lparr>walls := blockingWall\<rparr>) = Some (s'\<lparr>walls := blockingWall\<rparr>)) \<and>
   play aimHost [(0, PointerLockChange True), (1, MouseDown 0), (2, MouseDown 0)] =
     Some twiceAimed \<and>
   0 < playerAmmo twiceAimed \<and> \<not> isReloading twiceAimed \<and>
   firstHit aimHost twiceAimed = Some 13 \<and> healthOf 13 twiceAimed = Some 32 \<and>
   \<not> rejected aimHost (rngPos twiceAimed + 2 * 0) \<and>
   map distance (rayCast (position (camera twiceAimed)) (Vec3 0 0 (- 1))
     (blockingWall @ map mesh (enemies twiceAimed))) = [8, 22] \<and>
   (\<exists>s'. shoot aimHost twiceAimed = Some s' \<and> healthOf 13 s' = None \<and>
      OnHit \<in> set (drop 4 (emitted s')) \<and>
      shoot aimHost (twiceAimed\<lparr>walls := blockingWall\<rparr>) = Some (s'\<lparr>walls := blockingWall\<rparr>))"
proof -
  have p: "play aimHost [] = Some aimGame" by (simp add: play_def newGame_aimHost)
  have h: "0 < playerAmmo aimGame" "\<not> isReloading aimGame" "firstHit aimHost aimGame = Some 13"
    "healthOf 13 aimGame = Some 100" "emitted aimGame = []"
    "position (camera aimGame) = Vec3 0 10 0"
    by (simp_all add: aim_eval)
  have g: "0 < playerAmmo twiceAimed" "\<not> isReloading twiceAimed"
    "firstHit aimHost twiceAimed = Some 13" "healthOf 13 twiceAimed = Some 32"
    "length (emitted twiceAimed) = 4" "position (camera twiceAimed) = Vec3 0 10 0"
    by (simp_all add: twiceAimed_def aim_eval)
  have r: "\<not> rejected aimHost (rngPos twiceAimed + 2 * 0)"
    by (simp add: rejected_def aimHost_sel twiceAimed_def)
  have w: "map distance (rayCast (position (camera aimGame)) (Vec3 0 0 (- 1))
       (blockingWall @ map mesh (enemies aimGame))) = [8, 22]"
    "map distance (rayCast (position (camera twiceAimed)) (Vec3 0 0 (- 1))
       (blockingWall @ map mesh (enemies twiceAimed))) = [8, 22]"
    by (simp_all add: h(6) g(6) rayCast_blockingWall)
  have a: "\<exists>s'. shoot aimHost aimGame = Some s' \<and> healthOf 13 s' = Some 66 \<and>
      OnHit \<in> set (emitted s') \<and>
      shoot aimHost (aimGame\<lparr>walls := blockingWall\<rparr>) = Some (s'\<lparr>walls := blockingWall\<rparr>)"
    using shots_ignore_walls[OF p h(1,2,3,4), of 0] by (auto simp: h(5))
  have b: "\<exists>s'. shoot aimHost twiceAimed = Some s' \<and> healthOf 13 s' = None \<and>
      OnHit \<in> set (drop 4 (emitted s')) \<and>
      shoot aimHost (twiceAimed\<lparr>walls := blockingWall\<rparr>) = Some (s'\<lparr>walls := blockingWall\<rparr>)"
    using shots_ignore_walls[OF play_twiceAimed g(1,2,3,4), of 0] r by (auto simp: g(5))
  show ?thesis
    by (intro conjI p h(1,2,3,4) g(1,2,3,4) r w a b play_twiceAimed)
qed

section \<open>Enemy fire: claim C5\<close>

lemma sqrt_less_50: "sqrt x < 50 \<longleftrightarrow> x < 2500"
proof -
  have "sqrt 2500 = 50" by (rule real_sqrt_unique) simp_all
  with real_sqrt_less_iff[of x 2500] show ?thesis by simp
qed

lemma enemyShoot_attempt:
  assumes "distanceTo (position (mesh e)) (position (camera s)) < 50 \<and> 2000 < t - lastShot e"
    and "enemyShoot H t e s = (e', s')"
  shows "e' = e\<lparr>lastShot := t\<rparr>"
  using assms by (auto simp: enemyShoot_def Let_def split: if_splits prod.splits)

lemma enemyShoot_idle:
  assumes "\<not> (distanceTo (position (mesh e)) (position (camera s)) < 50 \<and> 2000 < t - lastShot e)"
  shows "enemyShoot H t e s = (e, s)"
  using assms by (auto simp: enemyShoot_def Let_def)

text \<open>
  Claim C5, amended. In a tick an enemy attempts a shot exactly when its distance to the
  player, after its move of that tick, is below 50 and more than 2000 ms have passed since
  its last shot (at exactly 2000 ms it does not). An attempt sets \<open>lastShot\<close> to the current
  time whatever the occlusion test and the accuracy roll give; without an attempt
  \<open>lastShot\<close>, the player's health and the callbacks are untouched. In particular an enemy
  at distance 60 makes no attempt, whatever the time.
\<close>

theorem enemy_shot_attempt:
  assumes "updateEnemy H delta t e s = (e', s')"
  shows "(distanceTo (position (mesh e')) (position (camera s)) < 50 \<and> 2000 < t - lastShot e
            \<longrightarrow> lastShot e' = t) \<and>
         (\<not> (distanceTo (position (mesh e')) (position (camera s)) < 50 \<and> 2000 < t - lastShot e)
            \<longrightarrow> lastShot e' = lastShot e \<and> playerHealth s' = playerHealth s \<and>
                emitted s' = emitted s) \<and>
         (distanceTo (position (mesh e')) (position (camera s)) = 60
            \<longrightarrow> lastShot e' = lastShot e \<and> playerHealth s' = playerHealth s \<and>
                emitted s' = emitted s)"
proof -
  let ?e1 = "e\<lparr>moveTimer := moveTimer e + delta\<rparr>"
  obtain e2 s2 where r: "(if moveTimer ?e1 > 2 then retarget H (?e1\<lparr>moveTimer := 0\<rparr>) s else (?e1, s)) = (e2, s2)"
    by (cases "if moveTimer ?e1 > 2 then retarget H (?e1\<lparr>moveTimer := 0\<rparr>) s else (?e1, s)")
  then have e2: "lastShot e2 = lastShot e" and s2: "camera s2 = camera s"
    "playerHealth s2 = playerHealth s" "emitted s2 = emitted s"
    using retarget_enemy[of H "?e1\<lparr>moveTimer := 0\<rparr>" s e2 s2]
      retarget_game[of H "?e1\<lparr>moveTimer := 0\<rparr>" s e2 s2]
    by (auto split: if_splits)
  let ?m = "moveEnemy H delta e2"
  from assms r have sh: "enemyShoot H t ?m s2 = (e', s')"
    by (simp add: updateEnemy_def Let_def)
  have m: "lastShot ?m = lastShot e" using moveEnemy_enemy[of H delta e2] e2 by simp
  from enemyShoot_enemy[OF sh] have p: "position (mesh e') = position (mesh ?m)" by simp
  let ?c = "distanceTo (position (mesh e')) (position (camera s)) < 50 \<and> 2000 < t - lastShot e"
  have yes: "lastShot e' = t" if ?c
    using enemyShoot_attempt[of ?m s2 t H e' s'] that sh by (simp add: p s2 m)
  have no: "lastShot e' = lastShot e \<and> playerHealth s' = playerHealth s \<and> emitted s' = emitted s"
    if "\<not> ?c"
    using enemyShoot_idle[of ?m s2 t H] that sh by (simp add: p s2 m)
  have "\<not> ?c" if "distanceTo (position (mesh e')) (position (camera s)) = 60"
    using that by simp
  with yes no show ?thesis by blast
qed

theorem enemy_shot_attempt_witness:
  "distanceTo (position (mesh (fst (updateEnemy testHost 0 2001 (newEnemy 13 0 24) testGame))))
     (position (camera testGame)) < 50 \<and>
   2000 < 2001 - lastShot (newEnemy 13 0 24) \<and>
   lastShot (fst (updateEnemy testHost 0 2001 (newEnemy 13 0 24) testGame)) = 2001 \<and>
   distanceTo (position (mesh (fst (updateEnemy testHost 0 1000000 (newEnemy 13 0 24)
       (testGame\<lparr>camera := (camera testGame)\<lparr>position := Vec3 0 6 84\<rparr>\<rparr>)))))
     (position (camera (testGame\<lparr>camera := (camera testGame)\<lparr>position := Vec3 0 6 84\<rparr>\<rparr>))) = 60 \<and>
   lastShot (fst (updateEnemy testHost 0 1000000 (newEnemy 13 0 24)
       (testGame\<lparr>camera := (camera testGame)\<lparr>position := Vec3 0 6 84\<rparr>\<rparr>))) = 0"
proof -
  let ?far = "testGame\<lparr>camera := (camera testGame)\<lparr>position := Vec3 0 6 84\<rparr>\<rparr>"
  obtain e1 s1 where u1: "updateEnemy testHost 0 2001 (newEnemy 13 0 24) testGame = (e1, s1)"
    by (cases "updateEnemy testHost 0 2001 (newEnemy 13 0 24) testGame")
  obtain e2 s2 where u2: "updateEnemy testHost 0 1000000 (newEnemy 13 0 24) ?far = (e2, s2)"
    by (cases "updateEnemy testHost 0 1000000 (newEnemy 13 0 24) ?far")
  have p1: "position (mesh e1) = Vec3 0 6 24" and p2: "position (mesh e2) = Vec3 0 6 24"
    using u1 u2
    by (auto simp: updateEnemy_def moveEnemy_def enemyShoot_def Let_def newEnemy_def newMesh_def
        subVectors_def setY_def vlength_def split: if_splits prod.splits)
  have d1: "distanceTo (position (mesh e1)) (position (camera testGame)) < 50"
    by (simp add: p1 testGame_def emptyGame_def distanceTo_def subVectors_def vlength_def
        sqrt_less_50)
  have "sqrt 3600 = 60" by (rule real_sqrt_unique) simp_all
  then have d2: "distanceTo (position (mesh e2)) (position (camera ?far)) = 60"
    by (simp add: p2 distanceTo_def subVectors_def vlength_def)
  have l: "lastShot (newEnemy 13 0 24) = 0" by (simp add: newEnemy_def)
  from enemy_shot_attempt[OF u1] enemy_shot_attempt[OF u2] d1 d2 l u1 u2
  show ?thesis by simp
qed

text \<open>At exactly 2000 ms since the last shot an enemy in range makes no attempt.\<close>

theorem enemy_shot_at_2000_counterexample:
  "distanceTo (position (mesh (newEnemy 13 0 24))) (position (camera testGame)) < 50 \<and>
   2000 - lastShot (newEnemy 13 0 24) \<ge> 2000 \<and>
   updateEnemy testHost 0 2000 (newEnemy 13 0 24) testGame = (newEnemy 13 0 24, testGame)"
  by (simp add: updateEnemy_def moveEnemy_def enemyShoot_def Let_def newEnemy_def newMesh_def
      subVectors_def setY_def vlength_def distanceTo_def testGame_def emptyGame_def sqrt_less_50)

section \<open>Player health: claim C7\<close>

lemma hits_append: "hits (xs @ ys) = hits xs + hits ys"
  by (simp add: hits_def)

lemma healthInv_grow:
  assumes "healthInv s" and "playerHealth s' = playerHealth s"
    and "emitted s' = emitted s @ xs" and "hits xs = 0"
  shows "healthInv s'"
  using assms by (auto simp: healthInv_def hits_append)

lemma hitPlayer_healthInv: "healthInv s \<Longrightarrow> healthInv (hitPlayer s)"
  by (auto simp: healthInv_def hitPlayer_def Let_def emit_def hits_def)

lemma enemyShoot_healthInv:
  "healthInv s \<Longrightarrow> enemyShoot H t e s = (e', s') \<Longrightarrow> healthInv s'"
proof -
  assume a: "healthInv s" and b: "enemyShoot H t e s = (e', s')"
  have r: "healthInv (s\<lparr>rngPos := Suc (rngPos s)\<rparr>)" using a by (simp add: healthInv_def)
  from b have "s' = s \<or> s' = s\<lparr>rngPos := Suc (rngPos s)\<rparr> \<or> s' = hitPlayer (s\<lparr>rngPos := Suc (rngPos s)\<rparr>)"
    by (auto simp: enemyShoot_def random_def Let_def split: if_splits prod.splits)
  with a r hitPlayer_healthInv[OF r] show ?thesis by auto
qed

lemma updateEnemy_healthInv:
  "healthInv s \<Longrightarrow> updateEnemy H d t e s = (e', s') \<Longrightarrow> healthInv s'"
proof -
  assume a: "healthInv s" and b: "updateEnemy H d t e s = (e', s')"
  let ?e1 = "e\<lparr>moveTimer := moveTimer e + d\<rparr>"
  obtain e2 s2 where r: "(if moveTimer ?e1 > 2 then retarget H (?e1\<lparr>moveTimer := 0\<rparr>) s else (?e1, s)) = (e2, s2)"
    by (cases "if moveTimer ?e1 > 2 then retarget H (?e1\<lparr>moveTimer := 0\<rparr>) s else (?e1, s)")
  then have "playerHealth s2 = playerHealth s" "emitted s2 = emitted s"
    using retarget_game[of H "?e1\<lparr>moveTimer := 0\<rparr>" s e2 s2] by (auto split: if_splits)
  with a have "healthInv s2" by (simp add: healthInv_def)
  moreover from b r have "enemyShoot H t (moveEnemy H d e2) s2 = (e', s')"
    by (simp add: updateEnemy_def Let_def)
  ultimately show ?thesis by (rule enemyShoot_healthInv)
qed

lemma forEachEnemy_healthInv:
  "healthInv s \<Longrightarrow> forEachEnemy H d t es s = (es', s') \<Longrightarrow> healthInv s'"
proof (induction es arbitrary: s es' s')
  case Nil
  then show ?case by simp
next
  case (Cons e es)
  obtain e1 s1 where u: "updateEnemy H d t e s = (e1, s1)" by (cases "updateEnemy H d t e s")
  obtain es2 s2 where f: "forEachEnemy H d t es s1 = (es2, s2)" by (cases "forEachEnemy H d t es s1")
  from Cons.prems(2) u f have "s' = s2" by simp
  with Cons.IH[OF updateEnemy_healthInv[OF Cons.prems(1) u] f] show ?case by simp
qed

lemma animate_healthInv: "healthInv s \<Longrightarrow> healthInv (animate H d t s)"
proof (cases "isLocked s")
  case True
  assume a: "healthInv s"
  let ?p = "updatePlayer H d s"
  have "healthInv ?p" using a updatePlayer_fields[of H d s] by (simp add: healthInv_def)
  moreover obtain es s1 where f: "forEachEnemy H d t (enemies ?p) ?p = (es, s1)"
    by (cases "forEachEnemy H d t (enemies ?p) ?p")
  ultimately have "healthInv s1" by (rule forEachEnemy_healthInv)
  then have "healthInv (s1\<lparr>enemies := es\<rparr>)" by (simp add: healthInv_def)
  with f True show ?thesis by (simp add: animate_def updateEnemies_def)
next
  case False
  assume "healthInv s"
  with False show ?thesis by (simp add: animate_def)
qed

lemma hitDetection_emitted:
  "hitDetection H s = Some s' \<Longrightarrow> \<exists>xs. emitted s' = emitted s @ xs \<and> hits xs = 0"
  by (auto simp: hitDetection_def Let_def hits_def split: if_splits prod.splits list.splits option.splits
      dest!: killEnemy_game)

lemma shoot_healthInv: "healthInv s \<Longrightarrow> shoot H s = Some s' \<Longrightarrow> healthInv s'"
proof (cases "playerAmmo s \<le> 0 \<or> isReloading s")
  case True
  assume "healthInv s" "shoot H s = Some s'"
  with True show ?thesis by (simp add: shoot_def)
next
  case False
  assume a: "healthInv s" and b: "shoot H s = Some s'"
  let ?s1 = "emit (OnAmmoChange (playerAmmo s - 1)) (s\<lparr>playerAmmo := playerAmmo s - 1\<rparr>)"
  from shoot_unfold[OF False b] obtain s2 where
    h: "hitDetection H ?s1 = Some s2" and r: "s' = recoil H s2" by blast
  from hitDetection_emitted[OF h] obtain xs where
    xs: "emitted s2 = emitted ?s1 @ xs" "hits xs = 0" by blast
  show ?thesis
  proof (rule healthInv_grow[OF a])
    show "playerHealth s' = playerHealth s" using shoot_game[OF b False] by simp
    show "emitted s' = emitted s @ (OnAmmoChange (playerAmmo s - 1) # xs)"
      using r xs(1) by simp
    show "hits (OnAmmoChange (playerAmmo s - 1) # xs) = 0" using xs(2) by (simp add: hits_def)
  qed
qed

lemma runTimer_healthInv: "healthInv s \<Longrightarrow> healthInv (runTimer now s)"
  by (cases "timers s")
    (auto simp: runTimer_def reloadDone_def Let_def healthInv_def hits_def emit_def split: if_splits)

lemma step_healthInv: "healthInv s \<Longrightarrow> step H ev s = Some s' \<Longrightarrow> healthInv s'"
proof -
  assume a: "healthInv s" and st: "step H ev s = Some s'"
  obtain now e where ev: "ev = (now, e)" by (cases ev)
  show ?thesis
  proof (cases e)
    case (KeyDown code)
    with st ev have "s' = onKeyDown now code s" by simp
    with a onKeyDown_fields[of now code s] show ?thesis by (simp add: healthInv_def)
  next
    case (KeyUp code)
    with st ev have "s' = onKeyUp code s" by simp
    with a onKeyUp_fields[of code s] show ?thesis by (simp add: healthInv_def)
  next
    case (MouseDown b)
    with st ev have "s' = s \<or> shoot H s = Some s'"
      by (auto simp: onMouseDown_def split: if_splits)
    with a shoot_healthInv[OF a] show ?thesis by blast
  next
    case (MouseMove mx my)
    with st ev have "s' = onMouseMove H mx my s" by simp
    with a onMouseMove_fields[of H mx my s] show ?thesis by (simp add: healthInv_def)
  next
    case (PointerLockChange b)
    with a st ev show ?thesis by (auto simp: healthInv_def)
  next
    case (AnimationFrame d)
    with a st ev show ?thesis by (auto simp: animate_healthInv)
  next
    case TimerTurn
    with a st ev show ?thesis by (auto simp: runTimer_healthInv)
  qed
qed

lemma run_healthInv: "healthInv s \<Longrightarrow> run H evs s = Some s' \<Longrightarrow> healthInv s'"
proof (induction evs arbitrary: s)
  case Nil
  then show ?case by simp
next
  case (Cons ev evs)
  from Cons.prems(2) obtain s1 where 1: "step H ev s = Some s1" and 2: "run H evs s1 = Some s'"
    by (auto split: option.splits)
  from Cons.IH[OF step_healthInv[OF Cons.prems(1) 1] 2] show ?case .
qed

lemma newGame_healthInv: "newGame H = Some s \<Longrightarrow> healthInv s"
  unfolding newGame_def
  by (drule spawnEnemies_game) (simp add: healthInv_def createWorld_fields hits_def)

lemma play_healthInv: "play H evs = Some s \<Longrightarrow> healthInv s"
  by (auto simp: play_def split: option.splits dest: newGame_healthInv run_healthInv)

text \<open>
  Claim C7, amended. In every state that a run of events reaches from the start of a match
  the magazine and the reserve are not negative. The player's health is 100 less 10 for
  every hit taken, with no floor at 0, and whenever it is 0 or less the death callback has
  been invoked.
\<close>

theorem ammo_nonnegative_health_unfloored:
  assumes "play H evs = Some s"
  shows "0 \<le> playerAmmo s \<and> 0 \<le> playerReserveAmmo s \<and>
         playerHealth s = 100 - 10 * int (hits (emitted s)) \<and>
         (playerHealth s \<le> 0 \<longrightarrow> OnDeath \<in> set (emitted s))"
  using play_ammoInv[OF assms] play_healthInv[OF assms]
  by (simp add: ammoInv_def healthInv_def)

lemma volleyHost_sel:
  "mathRandom volleyHost i =
     (if i < 10 then (if even i then 1/2 else 13/20) else if i mod 5 = 4 then 1/10 else 9/10)"
  "applyQuaternion volleyHost v q = v"
  "intersectObjects volleyHost origin dir ms =
     map (\<lambda>m. \<lparr>distance = 1, object = objId m\<rparr>) (filter (\<lambda>m. objId m = 13) ms)"
  by (simp_all add: volleyHost_def testHost_def)

lemma spawnPosition_volleyHost:
  "even i \<Longrightarrow> i < 10 \<Longrightarrow> spawnPosition volleyHost i = Some (0, 24, Suc (Suc i))"
  by (subst spawnPosition.simps) (auto simp: volleyHost_sel)

lemma newGame_volleyHost: "newGame volleyHost = Some testGame"
proof -
  have five: "(5::nat) = Suc (Suc (Suc (Suc (Suc 0))))" by simp
  show ?thesis
    unfolding newGame_def five
    by (simp add: createCover_def createArena_def coverPositions_def addWall_def
        emptyGame_def Let_def spawnPosition_volleyHost testGame_def testWalls_def)
      (simp add: eval_nat_numeral)
qed

lemma play_volleys:
  "\<exists>s. play volleyHost volleys = Some s \<and> playerHealth s = - 20 \<and>
        emitted s =
          [OnHealthChange 90, OnHealthChange 80, OnHealthChange 70, OnHealthChange 60,
           OnHealthChange 50, OnHealthChange 40, OnHealthChange 30, OnHealthChange 20,
           OnHealthChange 10, OnHealthChange 0, OnDeath, OnHealthChange (- 10), OnDeath,
           OnHealthChange (- 20), OnDeath]"
  by (simp add: play_def newGame_volleyHost volleys_def animate_def
      updatePlayer_def integrate_def collide.simps groundCollision_def arenaBounds_def
      Let_def testGame_def emptyGame_def testWalls_eq volleyHost_sel number_def normalize_vec_def
      vlength_def multiplyScalar_def translateX_def translateZ_def addVectors_def subVectors_def
      setX_def setY_def setZ_def playerBoxAt_def setFromCenterAndSize_def setFromObject_def
      intersectsBox_def newMesh_def newEnemy_def
      updateEnemies_def updateEnemy_def moveEnemy_def enemyShoot_def hitPlayer_def random_def
      emit_def distanceTo_def sqrt_less_50)

theorem ammo_nonnegative_health_unfloored_witness:
  "\<exists>s. play volleyHost volleys = Some s \<and> playerHealth s = - 20 \<and>
        0 \<le> playerAmmo s \<and> 0 \<le> playerReserveAmmo s \<and>
        hits (emitted s) = 12 \<and> OnDeath \<in> set (emitted s)"
proof -
  from play_volleys obtain s where s: "play volleyHost volleys = Some s" "playerHealth s = - 20"
    by blast
  from ammo_nonnegative_health_unfloored[OF s(1)] s show ?thesis by auto
qed

text \<open>
  In the third volley the second hit brings the player's health to 0 and the death callback
  is invoked; the third and fourth hit of the same tick take it to -10 and -20.
\<close>

theorem health_negative_counterexample:
  "map_option playerHealth (play volleyHost volleys) = Some (- 20) \<and> (- 20 :: int) < 0 \<and>
   map_option (\<lambda>s. drop 9 (emitted s)) (play volleyHost volleys) =
     Some [OnHealthChange 0, OnDeath, OnHealthChange (- 10), OnDeath, OnHealthChange (- 20), OnDeath]"
  using play_volleys by auto

section \<open>Pitch and recoil: claim C8\<close>

text \<open>Look input clamps the pitch it computes; the recoil of a shot is added with no clamp.\<close>

lemma onMouseMove_clamps:
  assumes "isLocked s"
  shows "ex (euler (onMouseMove H mx my s)) =
           max (- pi / 2) (min (pi / 2) (ex (eulerFromQuat H YXZ (quaternion (camera s))) - my * 0.002))"
proof -
  from assms have nn: "\<not> \<not> isLocked s" by simp
  have sel: "ex (euler (s\<lparr>euler := Euler a b c, camera := C\<rparr>)) = a" for a b c C
    by simp
  show ?thesis
    unfolding onMouseMove_def Let_def by (simp only: if_not_P[OF nn] sel euler.sel)
qed

lemma onMouseMove_range:
  "isLocked s \<Longrightarrow>
   - pi / 2 \<le> ex (euler (onMouseMove H mx my s)) \<and> ex (euler (onMouseMove H mx my s)) \<le> pi / 2"
  unfolding onMouseMove_clamps by (simp add: max_def min_def)

text \<open>
  Claim C8 at its failing input. The player looks straight up, the pitch of the camera
  at its limit of a quarter turn, and fires; the first recoil draw is 0.65. The shot
  leaves the pitch of the camera at a quarter turn plus 0.003, above the limit.
\<close>

theorem recoil_leaves_pitch_range:
  "isLocked lookingUp \<and> ex (rotation (camera lookingUp)) = pi / 2 \<and>
   map_option (\<lambda>s. ex (rotation (camera s))) (shoot testHost lookingUp) =
     Some (pi / 2 + 3 / 1000) \<and>
   pi / 2 < pi / 2 + (3 / 1000 :: real)"
  by (simp add: lookingUp_def shoot_def hitDetection_def
      testGame_def emptyGame_def testHost_sel newEnemy_def newMesh_def emit_def Let_def
      recoil_def random_def setRotation_def)

section \<open>Collision rollback: claim C2\<close>

lemma updateEnemies_camera: "camera (updateEnemies H d t s) = camera s"
  using updateEnemies_fields[of H d t s] by simp

lemma step_inArena:
  "inArena (position (camera s)) \<Longrightarrow> step H ev s = Some s' \<Longrightarrow> inArena (position (camera s'))"
proof -
  assume a: "inArena (position (camera s))" and st: "step H ev s = Some s'"
  obtain now e where ev: "ev = (now, e)" by (cases ev)
  show ?thesis
  proof (cases e)
    case (KeyDown code)
    with st ev have "s' = onKeyDown now code s" by simp
    with a onKeyDown_fields[of now code s] show ?thesis by simp
  next
    case (KeyUp code)
    with st ev have "s' = onKeyUp code s" by simp
    with a onKeyUp_fields[of code s] show ?thesis by simp
  next
    case (MouseDown b)
    with st ev have c: "s' = s \<or> shoot H s = Some s'"
      by (auto simp: onMouseDown_def split: if_splits)
    show ?thesis
    proof (cases "playerAmmo s \<le> 0 \<or> isReloading s")
      case True
      with c have "s' = s" by (auto simp: shoot_def)
      with a show ?thesis by simp
    next
      case False
      from c show ?thesis
      proof
        assume "s' = s"
        with a show ?thesis by simp
      next
        assume "shoot H s = Some s'"
        from shoot_game[OF this False] a show ?thesis by simp
      qed
    qed
  next
    case (MouseMove mx my)
    with st ev have "s' = onMouseMove H mx my s" by simp
    with a onMouseMove_fields[of H mx my s] show ?thesis by simp
  next
    case (PointerLockChange b)
    with a st ev show ?thesis by auto
  next
    case (AnimationFrame d)
    with st ev have "s' = animate H d now s" by simp
    with a updatePlayer_inArena[of H d s] show ?thesis
      by (simp add: animate_def updateEnemies_camera)
  next
    case TimerTurn
    with st ev have "s' = runTimer now s" by simp
    with a runTimer_fields[of now s] show ?thesis by simp
  qed
qed

lemma run_inArena:
  "inArena (position (camera s)) \<Longrightarrow> run H evs s = Some s' \<Longrightarrow> inArena (position (camera s'))"
proof (induction evs arbitrary: s)
  case Nil
  then show ?case by simp
next
  case (Cons ev evs)
  from Cons.prems(2) obtain s1 where 1: "step H ev s = Some s1" and 2: "run H evs s1 = Some s'"
    by (auto split: option.splits)
  from Cons.IH[OF step_inArena[OF Cons.prems(1) 1] 2] show ?case .
qed

lemma newGame_inArena: "newGame H = Some s \<Longrightarrow> inArena (position (camera s))"
proof -
  assume "newGame H = Some s"
  then have "spawnEnemies H 5 (createCover (createArena emptyGame)) = Some s"
    by (simp add: newGame_def)
  from spawnEnemies_game[OF this] have "camera s = camera emptyGame"
    by (simp add: createWorld_fields)
  then show ?thesis by (simp add: emptyGame_def inArena_def)
qed

lemma play_inArena: "play H evs = Some s \<Longrightarrow> inArena (position (camera s))"
  by (auto simp: play_def split: option.splits dest: newGame_inArena run_inArena)

text \<open>
  Claim C2. Take a state that a run of events reaches from the start of a match, with the
  player at \<open>P\<close>, and a tick whose integration step (damping, gravity, input acceleration,
  translation of the camera by velocity times \<open>delta\<close>) puts the player's 2 by 10 by 2 box
  in overlap with the box of some wall or cover block. Then the player update of that tick
  leaves the position equal to \<open>P\<close> and both horizontal velocity components 0.
\<close>

theorem collision_rollback:
  assumes "play H evs = Some s"
    and "\<exists>wall \<in> set (walls s).
           intersectsBox (playerBoxAt (position (camera (integrate H delta s)))) (setFromObject wall)"
  shows "position (camera (updatePlayer H delta s)) = position (camera s) \<and>
         vx (playerVelocity (updatePlayer H delta s)) = 0 \<and>
         vz (playerVelocity (updatePlayer H delta s)) = 0"
proof -
  from assms(1) have arena: "inArena (position (camera s))" by (rule play_inArena)
  let ?s1 = "integrate H delta s"
  let ?s2 = "?s1\<lparr>camera := (camera ?s1)\<lparr>position := position (camera s)\<rparr>,
               playerVelocity := setZ (setX (playerVelocity ?s1) 0) 0\<rparr>"
  have w: "walls ?s1 = walls s" using integrate_fields[of H delta s] by simp
  have c: "collide (position (camera s)) (playerBoxAt (position (camera ?s1))) (walls ?s1) ?s1 = ?s2"
    using assms(2) unfolding w by (rule collide_hit)
  have p: "position (camera ?s2) = position (camera s)" by simp
  have g: "groundCollision ?s2 = ?s2"
    using arena p by (rule groundCollision_inArena)
  have q: "inArena (position (camera ?s2))"
    unfolding p by (rule arena)
  have b: "arenaBounds ?s2 = ?s2"
    using q by (rule arenaBounds_inArena)
  have "updatePlayer H delta s = ?s2"
    unfolding updatePlayer_def Let_def c g b ..
  then show ?thesis by (simp add: setX_def setZ_def)
qed

lemma play_approach:
  "\<exists>s. play testHost approach = Some s \<and> position (camera s) = Vec3 0 10 (1521/100) \<and>
        quaternion (camera s) = Quat 0 0 0 1 \<and>
        playerVelocity s = Vec3 0 0 39 \<and> direction s = Vec3 0 0 (-1) \<and>
        moveForward s \<and> \<not> moveBackward s \<and> \<not> moveLeft s \<and> \<not> moveRight s \<and>
        walls s = testWalls"
  by (simp add: play_def newGame_testHost approach_def animate_def onKeyDown_def onKeyUp_def
      updatePlayer_def integrate_def collide.simps groundCollision_def arenaBounds_def
      Let_def testGame_def emptyGame_def testWalls_eq testHost_sel number_def normalize_vec_def
      vlength_def multiplyScalar_def translateX_def translateZ_def addVectors_def subVectors_def
      setX_def setY_def setZ_def playerBoxAt_def setFromCenterAndSize_def setFromObject_def
      intersectsBox_def newMesh_def newEnemy_def
      updateEnemies_def updateEnemy_def moveEnemy_def enemyShoot_def hitPlayer_def random_def
      emit_def distanceTo_def sqrt_less_50)

theorem collision_rollback_witness:
  "\<exists>s. play testHost approach = Some s \<and>
     (\<exists>wall \<in> set (walls s).
        intersectsBox (playerBoxAt (position (camera (integrate testHost (39/100) s))))
          (setFromObject wall)) \<and>
     position (camera s) = Vec3 0 10 (1521/100) \<and>
     position (camera (integrate testHost (39/100) s)) = Vec3 0 (- 49058/10000) (- 44109/1000) \<and>
     position (camera (updatePlayer testHost (39/100) s)) = Vec3 0 10 (1521/100) \<and>
     vx (playerVelocity (updatePlayer testHost (39/100) s)) = 0 \<and>
     vz (playerVelocity (updatePlayer testHost (39/100) s)) = 0"
proof -
  from play_approach obtain s where
    s: "play testHost approach = Some s" "position (camera s) = Vec3 0 10 (1521/100)"
       "quaternion (camera s) = Quat 0 0 0 1"
       "playerVelocity s = Vec3 0 0 39" "direction s = Vec3 0 0 (-1)"
       "moveForward s" "\<not> moveBackward s" "\<not> moveLeft s" "\<not> moveRight s"
       "walls s = testWalls"
    by blast
  have i: "position (camera (integrate testHost (39/100) s)) =
             Vec3 0 (- 49058/10000) (- 44109/1000)"
    by (simp add: integrate_def Let_def s number_def normalize_vec_def vlength_def multiplyScalar_def
        translateX_def translateZ_def addVectors_def setY_def setX_def setZ_def testHost_sel)
  have m: "newMesh 12 (Vec3 8 10 8) (Vec3 0 5 (-40)) \<in> set (walls s)"
    by (simp add: s testWalls_eq)
  have "intersectsBox (playerBoxAt (position (camera (integrate testHost (39/100) s))))
          (setFromObject (newMesh 12 (Vec3 8 10 8) (Vec3 0 5 (-40))))"
    unfolding i
    by (simp add: intersectsBox_def playerBoxAt_def setFromObject_def setFromCenterAndSize_def
        newMesh_def multiplyScalar_def subVectors_def addVectors_def Let_def)
  with m have b: "\<exists>wall \<in> set (walls s).
        intersectsBox (playerBoxAt (position (camera (integrate testHost (39/100) s))))
          (setFromObject wall)" by blast
  from collision_rollback[OF s(1) b] s(1,2) b i show ?thesis by auto
qed

end
